theory Spec2Isabelle
  imports Complex_Main
begin

section \<open>pyasdf fastyaml: the YAML event stream and the Python values built from it\<close>

text \<open>
  The development embeds \<^verbatim>\<open>src/pyasdf/src/fastyaml.c\<close> (the Python 3 build, where
  \<^verbatim>\<open>PyInt_FromString\<close> is \<^verbatim>\<open>PyLong_FromString\<close>). Python objects live in a heap
  indexed by addresses, so that sharing through aliases is visible; a \<^verbatim>\<open>NULL\<close> pointer
  is \<open>None\<close>. Reference counts are not modelled, with one exception: \<^verbatim>\<open>Py_DECREF\<close>
  of a \<^verbatim>\<open>NULL\<close> pointer dereferences it, which the model records as a crash.
  Memory exhaustion (a failing \<^verbatim>\<open>PyList_New\<close>, \<^verbatim>\<open>PyDict_New\<close> and the like) is
  not modelled. Every object that is returned gets an address of its own, also
  \<^verbatim>\<open>None\<close>, \<^verbatim>\<open>True\<close> and \<^verbatim>\<open>False\<close>, which CPython keeps once: the module never
  compares objects by identity, and a dictionary compares keys by value as well.
\<close>

subsection \<open>Events of libyaml\<close>

datatype yaml_scalar_style =
    YAML_ANY_SCALAR_STYLE
  | YAML_PLAIN_SCALAR_STYLE
  | YAML_SINGLE_QUOTED_SCALAR_STYLE
  | YAML_DOUBLE_QUOTED_SCALAR_STYLE
  | YAML_LITERAL_SCALAR_STYLE
  | YAML_FOLDED_SCALAR_STYLE

text \<open>
  Anchors and tags are NUL-terminated C strings that may be \<^verbatim>\<open>NULL\<close>: \<open>None\<close> is the
  \<^verbatim>\<open>NULL\<close> pointer and \<open>Some t\<close> holds the characters before the terminator. A scalar
  carries its bytes (the field \<^verbatim>\<open>length\<close> is their number) and its style.
\<close>

datatype yaml_event =
    YAML_NO_EVENT
  | YAML_STREAM_START_EVENT
  | YAML_STREAM_END_EVENT
  | YAML_DOCUMENT_START_EVENT
  | YAML_DOCUMENT_END_EVENT
  | YAML_ALIAS_EVENT string
  | YAML_SCALAR_EVENT "string option" "string option" string yaml_scalar_style
  | YAML_SEQUENCE_START_EVENT "string option" "string option"
  | YAML_SEQUENCE_END_EVENT
  | YAML_MAPPING_START_EVENT "string option" "string option"
  | YAML_MAPPING_END_EVENT

text \<open>The arguments of the scalar and start events are anchor, tag (and value, style).\<close>

subsection \<open>Python objects and exceptions\<close>

type_synonym addr = nat

datatype pyfloat = NaN | PosInf | NegInf | Finite rat

text \<open>
  \<open>Finite q\<close> is the binary64 number whose value is the rational \<open>q\<close>. \<open>Tagged t a\<close> is
  a wrapper made by the external tag hook around the object at \<open>a\<close>.
\<close>

datatype pyobj =
    PyNone
  | PyBool bool
  | PyInt int
  | PyFloat pyfloat
  | PyStr string
  | PyList "addr list"
  | PyDict "(addr \<times> addr) list"
  | OrderedDict "(addr \<times> addr) list"
  | Tagged string addr

datatype pyerr =
    ValueError string
  | UnicodeDecodeError
  | OverflowError
  | TypeError
  | AttributeError
  | SystemError
  | HookError string

subsection \<open>C strings\<close>

definition NUL :: char where
  "NUL = CHR 0x00"

definition cstr :: "string \<Rightarrow> string" where
  "cstr p = takeWhile (\<lambda>c. c \<noteq> NUL) p"

text \<open>\<open>value_at v i\<close> is \<^verbatim>\<open>value[i]\<close> in a buffer that ends with a NUL byte.\<close>

definition value_at :: "string \<Rightarrow> nat \<Rightarrow> char" where
  "value_at v i = (if i < length v then v ! i else NUL)"

text \<open>
  \<open>strncmp_eq p lit n\<close> is \<^verbatim>\<open>strncmp(p, lit, n) == 0\<close>: the first \<open>n\<close> characters of the
  two NUL-terminated strings agree, the comparison stopping at a terminator.
\<close>

definition strncmp_eq :: "string \<Rightarrow> string \<Rightarrow> nat \<Rightarrow> bool" where
  "strncmp_eq p lit n = (take n (cstr p @ [NUL]) = take n (cstr lit @ [NUL]))"

subsection \<open>The CPython functions the scalar resolver calls\<close>

definition Py_ISSPACE :: "char \<Rightarrow> bool" where
  "Py_ISSPACE c = (c = CHR '' '' \<or> (9::nat) \<le> of_char c \<and> (of_char c :: nat) \<le> 13)"

text \<open>The value of a digit in \<^verbatim>\<open>PyLong_FromString\<close>; 37 for a character that is none.\<close>

definition digit_value :: "char \<Rightarrow> nat" where
  "digit_value c =
     (let n = (of_char c :: nat) in
      if 48 \<le> n \<and> n \<le> 57 then n - 48
      else if 97 \<le> n \<and> n \<le> 122 then n - 87
      else if 65 \<le> n \<and> n \<le> 90 then n - 55
      else 37)"

definition digits_value :: "nat \<Rightarrow> string \<Rightarrow> nat" where
  "digits_value base ds = foldl (\<lambda>a c. a * base + digit_value c) 0 ds"

text \<open>
  \<^verbatim>\<open>PyLong_FromString(str, &end, base)\<close> for a base of 8, 10 or 16, on the C string
  \<open>str\<close>: leading white space, a sign, the prefix of the base (\<^verbatim>\<open>0x\<close> for 16, \<^verbatim>\<open>0o\<close> for
  8), at least one digit, trailing white space and then the terminator. It returns the
  integer and the offset of \<^verbatim>\<open>end\<close>, which on success is the terminator, or \<open>None\<close>
  where CPython returns \<^verbatim>\<open>NULL\<close> with a \<^verbatim>\<open>ValueError\<close> set. Digit separators
  (underscores) and the limit on the number of digits, both of later CPython versions,
  are not modelled.
\<close>

definition skip_prefix :: "nat \<Rightarrow> string \<Rightarrow> string" where
  "skip_prefix base s =
     (case s of
        c0 # c1 # r \<Rightarrow>
          if c0 = CHR ''0'' \<and>
             ((base = 16 \<and> (c1 = CHR ''x'' \<or> c1 = CHR ''X'')) \<or>
              (base = 8 \<and> (c1 = CHR ''o'' \<or> c1 = CHR ''O'')))
          then r else s
      | _ \<Rightarrow> s)"

definition PyLong_FromString :: "string \<Rightarrow> nat \<Rightarrow> (int \<times> nat) option" where
  "PyLong_FromString str base =
     (let s0 = cstr str;
          s1 = dropWhile Py_ISSPACE s0;
          neg = (case s1 of c # _ \<Rightarrow> c = CHR ''-'' | [] \<Rightarrow> False);
          s2 = (case s1 of c # r \<Rightarrow> if c = CHR ''+'' \<or> c = CHR ''-'' then r else s1 | [] \<Rightarrow> s1);
          s3 = skip_prefix base s2;
          ds = takeWhile (\<lambda>c. digit_value c < base) s3;
          rest = dropWhile (\<lambda>c. digit_value c < base) s3
      in if ds = [] then None
         else if dropWhile Py_ISSPACE rest \<noteq> [] then None
         else Some ((if neg then - int (digits_value base ds) else int (digits_value base ds)),
                    length s0))"

text \<open>
  \<^verbatim>\<open>PyOS_string_to_double(s, &end, PyExc_OverflowError)\<close>. CPython's parser takes no
  leading white space: a sign, decimal digits with at most one point and at least one
  digit, and an exponent when digits follow the \<^verbatim>\<open>e\<close>. When that reads nothing, the
  words \<^verbatim>\<open>inf\<close>, \<^verbatim>\<open>infinity\<close> and \<^verbatim>\<open>nan\<close> are tried, in any case, after a sign.
\<close>

definition is_digit :: "char \<Rightarrow> bool" where
  "is_digit c = ((48::nat) \<le> of_char c \<and> (of_char c :: nat) \<le> 57)"

definition lower :: "char \<Rightarrow> char" where
  "lower c = (if (65::nat) \<le> of_char c \<and> (of_char c :: nat) \<le> 90
              then char_of ((of_char c :: nat) + 32) else c)"

record strtod_result =
  sd_value :: pyfloat
  sd_end :: nat
  sd_error :: "pyerr option"

definition parse_inf_or_nan :: "string \<Rightarrow> (pyfloat \<times> nat) option" where
  "parse_inf_or_nan s =
     (let neg = (case s of c # _ \<Rightarrow> c = CHR ''-'' | [] \<Rightarrow> False);
          k = (case s of c # _ \<Rightarrow> if c = CHR ''+'' \<or> c = CHR ''-'' then 1 else 0 | [] \<Rightarrow> 0);
          w = map lower (drop k s)
      in if take 8 w = ''infinity'' then Some (if neg then NegInf else PosInf, k + 8)
         else if take 3 w = ''inf'' then Some (if neg then NegInf else PosInf, k + 3)
         else if take 3 w = ''nan'' then Some (NaN, k + 3)
         else None)"

text \<open>
  The decimal numeral that \<^verbatim>\<open>_Py_dg_strtod\<close> reads: its sign, the digits of its integer
  and fraction parts, the power of ten that scales these digits read as one integer, and
  the number of characters read; \<open>None\<close> when no digit is found.
\<close>

definition scan_decimal :: "string \<Rightarrow> (bool \<times> string \<times> int \<times> nat) option" where
  "scan_decimal s =
     (let neg = (case s of c # _ \<Rightarrow> c = CHR ''-'' | [] \<Rightarrow> False);
          k = (case s of c # _ \<Rightarrow> if c = CHR ''+'' \<or> c = CHR ''-'' then 1 else 0 | [] \<Rightarrow> (0::nat));
          s1 = drop k s;
          ip = takeWhile is_digit s1;
          s2 = dropWhile is_digit s1;
          has_point = (case s2 of c # _ \<Rightarrow> c = CHR ''.'' | [] \<Rightarrow> False);
          fp = (if has_point then takeWhile is_digit (drop 1 s2) else []);
          s3 = (if has_point then dropWhile is_digit (drop 1 s2) else s2);
          has_e = (case s3 of c # _ \<Rightarrow> c = CHR ''e'' \<or> c = CHR ''E'' | [] \<Rightarrow> False);
          s4 = drop 1 s3;
          eneg = (case s4 of c # _ \<Rightarrow> c = CHR ''-'' | [] \<Rightarrow> False);
          ek = (case s4 of c # _ \<Rightarrow> if c = CHR ''+'' \<or> c = CHR ''-'' then 1 else 0 | [] \<Rightarrow> (0::nat));
          ed = takeWhile is_digit (drop ek s4);
          has_exp = (has_e \<and> ed \<noteq> []);
          e = (if \<not> has_exp then 0 else if eneg then - int (digits_value 10 ed)
               else int (digits_value 10 ed));
          n = k + length ip + (if has_point then 1 + length fp else 0)
                + (if has_exp then 1 + ek + length ed else 0)
      in if ip = [] \<and> fp = [] then None
         else Some (neg, ip @ fp, e - int (length fp), n))"

text \<open>
  The value of a numeral, as a fraction of two integers, the second positive.
\<close>

definition digits_int :: "string \<Rightarrow> int" where
  "digits_int ds = foldl (\<lambda>a c. a * 10 + int (digit_value c)) 0 ds"

definition decimal_ratio :: "string \<Rightarrow> int \<Rightarrow> int \<times> int" where
  "decimal_ratio ds e =
     (if 0 \<le> e then (digits_int ds * 10 ^ nat e, 1) else (digits_int ds, 10 ^ nat (- e)))"

text \<open>
  A C \<^verbatim>\<open>double\<close> is a binary64 number: \<open>Finite q\<close> is only ever built, by \<open>round64\<close>, for
  a rational \<open>q\<close> that binary64 represents (the sign of a zero is not kept: \<open>0.0\<close> and
  \<open>-0.0\<close> are equal in Python). \<open>round64 (a, b)\<close> is the binary64 number nearest to
  \<open>a / b\<close>, for \<open>0 \<le> a\<close> and \<open>0 < b\<close>: a tie goes to the even significand, and the result is
  an infinity from \<open>2^1024 - 2^970\<close> on. With \<open>2^e \<le> a / b < 2^(e+1)\<close>, for \<open>e = ilog2 (a, b)\<close>,
  the numbers around \<open>a / b\<close> are the multiples of \<open>2^p\<close> for \<open>p = e - 52\<close>, and for
  \<open>p = -1074\<close> among the subnormal numbers; \<open>scaled\<close> is the nearest multiple, and \<open>n * 2^p\<close>
  is beyond the largest binary64 number when it reaches \<open>2^1024\<close>.
\<close>

function bit_length :: "int \<Rightarrow> nat" where
  "bit_length n = (if n \<le> 0 then 0 else Suc (bit_length (n div 2)))"
  by auto

termination bit_length
  by (relation "measure nat") auto

declare bit_length.simps [simp del]

definition ilog2_from :: "int \<times> int \<Rightarrow> int \<Rightarrow> int" where
  "ilog2_from q e0 =
     (if (if 0 \<le> e0 then 2 ^ nat e0 * snd q \<le> fst q else snd q \<le> fst q * 2 ^ nat (- e0))
      then e0 else e0 - 1)"

definition ilog2 :: "int \<times> int \<Rightarrow> int" where
  "ilog2 q = ilog2_from q (int (bit_length (fst q)) - int (bit_length (snd q)))"

definition round_half_even :: "int \<Rightarrow> int \<Rightarrow> int" where
  "round_half_even a b =
     (if 2 * (a mod b) < b then a div b
      else if b < 2 * (a mod b) then a div b + 1
      else if even (a div b) then a div b else a div b + 1)"

definition quantum :: "int \<times> int \<Rightarrow> int" where
  "quantum q = max (ilog2 q) (- 1022) - 52"

definition scaled :: "int \<times> int \<Rightarrow> int \<Rightarrow> int" where
  "scaled q p =
     (if 0 \<le> p then round_half_even (fst q) (snd q * 2 ^ nat p)
      else round_half_even (fst q * 2 ^ nat (- p)) (snd q))"

definition binary64 :: "int \<Rightarrow> int \<Rightarrow> pyfloat" where
  "binary64 n p =
     (if 971 < p \<or> (p = 971 \<and> 2 ^ 53 \<le> n) then PosInf
      else Finite (of_int (n * 2 ^ nat p) / of_int (2 ^ nat (- p))))"

definition round64 :: "int \<times> int \<Rightarrow> pyfloat" where
  "round64 q = (if fst q = 0 then Finite 0 else binary64 (scaled q (quantum q)) (quantum q))"

fun negate :: "pyfloat \<Rightarrow> pyfloat" where
  "negate (Finite q) = Finite (- q)"
| "negate PosInf = NegInf"
| "negate NegInf = PosInf"
| "negate NaN = NaN"

text \<open>
  \<^verbatim>\<open>_Py_dg_strtod\<close> sets \<^verbatim>\<open>errno\<close> to \<^verbatim>\<open>ERANGE\<close> when the numeral that its correction
  loop works on rounds beyond the largest binary64 number. That numeral is the one
  read, without its leading and trailing zeros, when it has at most 40 digits, and its
  first 18 digits otherwise: a longer numeral is then compared with the half-way point
  digit by digit, and that comparison returns an infinity without setting \<^verbatim>\<open>errno\<close>.
\<close>

definition strtod_seen :: "string \<Rightarrow> int \<Rightarrow> int \<times> int" where
  "strtod_seen ds e =
     (let d1 = dropWhile (\<lambda>c. c = CHR ''0'') ds;
          d2 = rev (dropWhile (\<lambda>c. c = CHR ''0'') (rev d1));
          e0 = e + int (length d1 - length d2)
      in if 40 < length d2 then decimal_ratio (take 18 d2) (e0 + int (length d2) - 18)
         else decimal_ratio d2 e0)"

definition dbl_overflow :: "int \<times> int \<Rightarrow> bool" where
  "dbl_overflow q = ((2 ^ 1024 - 2 ^ 970) * snd q \<le> fst q)"

text \<open>
  \<open>dg_strtod s\<close> is the \<^verbatim>\<open>double\<close> that \<^verbatim>\<open>_Py_dg_strtod\<close> returns, whether it reports an
  overflow by \<^verbatim>\<open>ERANGE\<close>, and the number of characters read.
\<close>

definition dg_strtod :: "string \<Rightarrow> (pyfloat \<times> bool \<times> nat) option" where
  "dg_strtod s =
     (case scan_decimal s of
        None \<Rightarrow> None
      | Some (neg, ds, e, n) \<Rightarrow>
          Some (if neg then negate (round64 (decimal_ratio ds e))
                else round64 (decimal_ratio ds e),
                dbl_overflow (strtod_seen ds e), n))"

text \<open>
  On an overflow \<^verbatim>\<open>PyOS_string_to_double\<close> sets the overflow exception and returns
  \<open>-1.0\<close>, with \<^verbatim>\<open>end\<close> after the numeral.
\<close>

definition PyOS_string_to_double :: "string \<Rightarrow> strtod_result" where
  "PyOS_string_to_double str =
     (let s = cstr str in
      case dg_strtod s of
        Some (x, overflow, n) \<Rightarrow>
          \<lparr>sd_value = (if overflow then Finite (- 1) else x), sd_end = n,
           sd_error = (if overflow then Some OverflowError else None)\<rparr>
      | None \<Rightarrow>
          (case parse_inf_or_nan s of
             Some (f, n) \<Rightarrow> \<lparr>sd_value = f, sd_end = n, sd_error = None\<rparr>
           | None \<Rightarrow>
               \<lparr>sd_value = Finite (- 1), sd_end = 0,
                sd_error = Some (ValueError ''could not convert string to float'')\<rparr>))"

text \<open>
  \<^verbatim>\<open>PyUnicode_DecodeUTF8(value, length, NULL)\<close>: the string of the well-formed UTF-8
  byte sequence, \<^verbatim>\<open>NULL\<close> with \<^verbatim>\<open>UnicodeDecodeError\<close> otherwise. A Python string is
  represented by its UTF-8 bytes.
\<close>

definition cont :: "nat \<Rightarrow> bool" where
  "cont b = (0x80 \<le> b \<and> b \<le> 0xBF)"

fun utf8_valid :: "nat list \<Rightarrow> bool" where
  "utf8_valid [] = True"
| "utf8_valid [b] = (b < 0x80)"
| "utf8_valid [b, c1] = (if b < 0x80 then c1 < 0x80 else 0xC2 \<le> b \<and> b \<le> 0xDF \<and> cont c1)"
| "utf8_valid (b # c1 # c2 # r) =
     (if b < 0x80 then utf8_valid (c1 # c2 # r)
      else if 0xC2 \<le> b \<and> b \<le> 0xDF then cont c1 \<and> utf8_valid (c2 # r)
      else if 0xE0 \<le> b \<and> b \<le> 0xEF then
        (if b = 0xE0 then 0xA0 \<le> c1 \<and> c1 \<le> 0xBF
         else if b = 0xED then 0x80 \<le> c1 \<and> c1 \<le> 0x9F
         else cont c1) \<and> cont c2 \<and> utf8_valid r
      else if 0xF0 \<le> b \<and> b \<le> 0xF4 then
        (case r of
           [] \<Rightarrow> False
         | c3 # r' \<Rightarrow>
             (if b = 0xF0 then 0x90 \<le> c1 \<and> c1 \<le> 0xBF
              else if b = 0xF4 then 0x80 \<le> c1 \<and> c1 \<le> 0x8F
              else cont c1) \<and> cont c2 \<and> cont c3 \<and> utf8_valid r')
      else False)"

definition PyUnicode_DecodeUTF8 :: "string \<Rightarrow> pyobj option" where
  "PyUnicode_DecodeUTF8 v = (if utf8_valid (map of_char v) then Some (PyStr v) else None)"

subsection \<open>The scalar resolver\<close>

text \<open>
  The resolver returns the new object (\<open>None\<close> for \<^verbatim>\<open>NULL\<close>) and the error indicator
  it leaves, given the indicator it finds: \<^verbatim>\<open>PyErr_Clear\<close> wipes an exception that
  was pending before the call, too.

  \<open>try_int v k base\<close> is the block that the source repeats for each base:
  \<^verbatim>\<open>end = expected_end; result = PyInt_FromString(value + k, &end, base);\<close> followed by
  \<^verbatim>\<open>PyErr_Clear\<close> on \<^verbatim>\<open>NULL\<close>, by dropping the result when \<^verbatim>\<open>end != expected_end\<close>,
  and by returning it otherwise.
\<close>

definition try_int :: "string \<Rightarrow> nat \<Rightarrow> nat \<Rightarrow> pyerr option \<Rightarrow> int option \<times> pyerr option" where
  "try_int v k base e =
     (case PyLong_FromString (drop k v) base of
        None \<Rightarrow> (None, None)
      | Some (z, n) \<Rightarrow> if k + n \<noteq> length v then (None, e) else (Some z, e))"

definition treat_as_string :: "string \<Rightarrow> pyerr option \<Rightarrow> pyobj option \<times> pyerr option" where
  "treat_as_string v e =
     (case PyUnicode_DecodeUTF8 v of
        Some obj \<Rightarrow> (Some obj, e)
      | None \<Rightarrow> (None, Some UnicodeDecodeError))"

text \<open>The code after the \<^verbatim>\<open>switch\<close>, with \<^verbatim>\<open>numstart = value + ns\<close>.\<close>

definition generic_numeric :: "string \<Rightarrow> nat \<Rightarrow> pyerr option \<Rightarrow> pyobj option \<times> pyerr option" where
  "generic_numeric v ns e =
     (let c = value_at v ns in
      if is_digit c \<or> c = CHR ''.'' then
        (case try_int v 0 10 e of
           (Some z, e1) \<Rightarrow> (Some (PyInt z), e1)
         | (None, e1) \<Rightarrow>
             (let r = PyOS_string_to_double v in
              if sd_end r = length v
              then (Some (PyFloat (sd_value r)),
                    (case sd_error r of Some x \<Rightarrow> Some x | None \<Rightarrow> e1))
              else treat_as_string v None))
      else treat_as_string v e)"

text \<open>\<^verbatim>\<open>_make_scalar\<close> (an Isabelle name cannot start with an underscore).\<close>

definition u_make_scalar ::
  "yaml_scalar_style \<Rightarrow> string \<Rightarrow> pyerr option \<Rightarrow> pyobj option \<times> pyerr option" where
  "u_make_scalar style v e =
     (if length v = 0 \<or> style = YAML_SINGLE_QUOTED_SCALAR_STYLE
           \<or> style = YAML_DOUBLE_QUOTED_SCALAR_STYLE
      then treat_as_string v e
      else
        (let c0 = value_at v 0; c1 = value_at v 1 in
         if c0 = CHR ''.'' then
           (if strncmp_eq (drop 1 v) ''NaN'' 4 then (Some (PyFloat NaN), e)
            else if strncmp_eq (drop 1 v) ''nan'' 4 then (Some (PyFloat NaN), e)
            else if strncmp_eq (drop 1 v) ''Inf'' 4 then (Some (PyFloat PosInf), e)
            else if strncmp_eq (drop 1 v) ''inf'' 4 then (Some (PyFloat PosInf), e)
            else generic_numeric v 0 e)
         else if c0 = CHR ''0'' then
           (if c1 = CHR ''x'' then
              (case try_int v 2 16 e of
                 (Some z, e1) \<Rightarrow> (Some (PyInt z), e1)
               | (None, e1) \<Rightarrow> generic_numeric v 0 e1)
            else if (48::nat) \<le> of_char c1 \<and> (of_char c1 :: nat) \<le> 56 then
              (case try_int v 1 8 e of
                 (Some z, e1) \<Rightarrow> (Some (PyInt z), e1)
               | (None, e1) \<Rightarrow> generic_numeric v 0 e1)
            else if length v = 1 then (Some (PyInt 0), e)
            else generic_numeric v 0 e)
         else if c0 = CHR ''-'' then
           (if c1 = CHR ''.'' \<and> strncmp_eq (drop 2 v) ''Inf'' 4 then (Some (PyFloat NegInf), e)
            else if c1 = CHR ''.'' \<and> strncmp_eq (drop 2 v) ''inf'' 4 then (Some (PyFloat NegInf), e)
            else generic_numeric v 1 e)
         else if c0 = CHR ''+'' then
           (if c1 = CHR ''.'' \<and> strncmp_eq (drop 2 v) ''Inf'' 4 then (Some (PyFloat PosInf), e)
            else if c1 = CHR ''.'' \<and> strncmp_eq (drop 2 v) ''inf'' 4 then (Some (PyFloat PosInf), e)
            else generic_numeric v 1 e)
         else if c0 = CHR ''n'' then
           (if strncmp_eq (drop 1 v) ''ull'' 4 then (Some PyNone, e) else treat_as_string v e)
         else if c0 = CHR ''t'' then
           (if strncmp_eq (drop 1 v) ''rue'' 4 then (Some (PyBool True), e)
            else treat_as_string v e)
         else if c0 = CHR ''f'' then
           (if strncmp_eq (drop 1 v) ''alse'' 5 then (Some (PyBool False), e)
            else treat_as_string v e)
         else generic_numeric v 0 e))"

text \<open>The styles that the first test of \<^verbatim>\<open>_make_scalar\<close> lets through.\<close>

definition unquoted :: "yaml_scalar_style \<Rightarrow> bool" where
  "unquoted style =
     (style \<noteq> YAML_SINGLE_QUOTED_SCALAR_STYLE \<and> style \<noteq> YAML_DOUBLE_QUOTED_SCALAR_STYLE)"

subsection \<open>The interpreter state\<close>

text \<open>
  A \<open>ScanError\<close> in the input is the place where libyaml's scanner or parser gives up.
\<close>

datatype parser_item = Event yaml_event | ScanError

text \<open>
  The effects on the collaborators, recorded in the order they happen (a ghost field:
  no function of the model reads it): an object is allocated, the tag hook is called
  with a tag and an object and returns an object or raises, a name is stored in the
  anchor table, a name is looked up there.
\<close>

datatype effect =
    New addr pyobj
  | Tag string addr "addr option"
  | Memo string addr
  | Lookup string "addr option"

record pystate =
  heap :: "pyobj list"
  anchors :: "string \<Rightarrow> addr option"
  events :: "parser_item list"
  event :: yaml_event
  err :: "pyerr option"
  trace :: "effect list"

text \<open>
  A call either returns a pointer (\<open>None\<close> is \<^verbatim>\<open>NULL\<close>) or crashes, on
  \<^verbatim>\<open>Py_DECREF(NULL)\<close>.
\<close>

datatype outcome = Ret "addr option" pystate | Crash pystate

fun state_of :: "outcome \<Rightarrow> pystate" where
  "state_of (Ret r s) = s"
| "state_of (Crash s) = s"

text \<open>
  \<^verbatim>\<open>yaml_parser_parse\<close> of libyaml: the next event is written to the event slot; after the
  end of the input it succeeds with an empty event; where the scanner fails it returns
  0, and nothing is produced afterwards.
\<close>

definition yaml_parser_parse :: "pystate \<Rightarrow> bool \<times> pystate" where
  "yaml_parser_parse s =
     (case events s of
        [] \<Rightarrow> (True, s\<lparr>event := YAML_NO_EVENT\<rparr>)
      | Event e # r \<Rightarrow> (True, s\<lparr>events := r, event := e\<rparr>)
      | ScanError # r \<Rightarrow> (False, s\<lparr>events := [], event := YAML_NO_EVENT\<rparr>))"

definition PyErr_SetString :: "pyerr \<Rightarrow> pystate \<Rightarrow> pystate" where
  "PyErr_SetString e s = s\<lparr>err := Some e\<rparr>"

definition alloc :: "pyobj \<Rightarrow> pystate \<Rightarrow> addr \<times> pystate" where
  "alloc obj s =
     (length (heap s), s\<lparr>heap := heap s @ [obj], trace := trace s @ [New (length (heap s)) obj]\<rparr>)"

text \<open>\<^verbatim>\<open>Py_DECREF(p)\<close> as the last step before \<^verbatim>\<open>return NULL\<close>.\<close>

definition decref_return_null :: "addr option \<Rightarrow> pystate \<Rightarrow> outcome" where
  "decref_return_null p s = (case p of None \<Rightarrow> Crash s | Some a \<Rightarrow> Ret None s)"

subsection \<open>Anchor table and tag hook\<close>

text \<open>
  \<^verbatim>\<open>memo_anchor\<close>. \<^verbatim>\<open>PyDict_SetItemString\<close> fails only when memory runs out, so the
  result is always 0 and only the new state is returned.
\<close>

definition memo_anchor :: "string option \<Rightarrow> addr option \<Rightarrow> pystate \<Rightarrow> pystate" where
  "memo_anchor anchor_name obj s =
     (case (anchor_name, obj) of
        (Some n, Some a) \<Rightarrow>
          if n \<noteq> [] then s\<lparr>anchors := (anchors s)(n \<mapsto> a), trace := trace s @ [Memo n a]\<rparr>
          else s
      | _ \<Rightarrow> s)"

text \<open>
  Modelled from the spec: the external tag hook \<^verbatim>\<open>pyasdf.tagged.tag_object\<close>, which the
  module looks up at initialisation. Given the tag and the object it "may return an
  unmodified value, a wrapped value, or fail"; the wrapper shares the container it wraps.
\<close>

datatype hook_result = HookSame | HookWrap | HookRaise

type_synonym hook = "string \<Rightarrow> pyobj \<Rightarrow> hook_result"

definition call_hook :: "hook \<Rightarrow> string \<Rightarrow> addr \<Rightarrow> pystate \<Rightarrow> addr option \<times> pystate" where
  "call_hook tag_object_method t a s =
     (case tag_object_method t (heap s ! a) of
        HookSame \<Rightarrow> (Some a, s\<lparr>trace := trace s @ [Tag t a (Some a)]\<rparr>)
      | HookWrap \<Rightarrow>
          (Some (length (heap s)),
           s\<lparr>heap := heap s @ [Tagged t a],
             trace := trace s @ [Tag t a (Some (length (heap s)))]\<rparr>)
      | HookRaise \<Rightarrow>
          (None, s\<lparr>err := Some (HookError t), trace := trace s @ [Tag t a None]\<rparr>))"

definition tag_object :: "hook \<Rightarrow> string option \<Rightarrow> addr option \<Rightarrow> pystate \<Rightarrow> addr option \<times> pystate" where
  "tag_object tag_object_method tag instance s =
     (case (instance, tag) of
        (Some a, Some t) \<Rightarrow>
          if t \<noteq> [] then call_hook tag_object_method t a s else (instance, s)
      | _ \<Rightarrow> (instance, s))"

text \<open>
  \<^verbatim>\<open>make_alias\<close>. \<^verbatim>\<open>PyDict_GetItemString\<close> returns \<^verbatim>\<open>NULL\<close> for a missing key and sets no
  exception.
\<close>

definition make_alias :: "string \<Rightarrow> pystate \<Rightarrow> outcome" where
  "make_alias name s = Ret (anchors s name) (s\<lparr>trace := trace s @ [Lookup name (anchors s name)]\<rparr>)"

fun ev_anchor :: "yaml_event \<Rightarrow> string option" where
  "ev_anchor (YAML_SCALAR_EVENT a t v st) = a"
| "ev_anchor (YAML_SEQUENCE_START_EVENT a t) = a"
| "ev_anchor (YAML_MAPPING_START_EVENT a t) = a"
| "ev_anchor _ = None"

fun ev_tag :: "yaml_event \<Rightarrow> string option" where
  "ev_tag (YAML_SCALAR_EVENT a t v st) = t"
| "ev_tag (YAML_SEQUENCE_START_EVENT a t) = t"
| "ev_tag (YAML_MAPPING_START_EVENT a t) = t"
| "ev_tag _ = None"

text \<open>\<^verbatim>\<open>make_scalar\<close>, on the scalar event in the event slot.\<close>

definition make_scalar :: "hook \<Rightarrow> pystate \<Rightarrow> outcome" where
  "make_scalar tag_object_method s =
     (case event s of
        YAML_SCALAR_EVENT anchor tag v style \<Rightarrow>
          (let (r, e) = u_make_scalar style v (err s);
               s1 = s\<lparr>err := e\<rparr>;
               (scalar, s2) = (case r of
                                 None \<Rightarrow> (None, s1)
                               | Some obj \<Rightarrow> (let (a, s') = alloc obj s1 in (Some a, s')));
               (scalar', s3) = tag_object tag_object_method tag scalar s2
           in Ret scalar' (memo_anchor anchor scalar' s3))
      | _ \<Rightarrow> Ret None s)"

subsection \<open>Operations on containers\<close>

text \<open>
  Python's \<^verbatim>\<open>==\<close> between the objects that can be keys: \<^verbatim>\<open>None\<close>, strings, and the
  numbers, where booleans count as 0 and 1 and NaN equals nothing. A dictionary takes
  two keys to be the same when they are one object or are equal. Lists and dictionaries
  are not hashable. A wrapper made by the hook is taken to be an ordinary object: hashable
  and equal to itself only.
\<close>

fun num_of :: "pyobj \<Rightarrow> pyfloat option" where
  "num_of (PyBool b) = Some (Finite (if b then 1 else 0))"
| "num_of (PyInt i) = Some (Finite (of_int i))"
| "num_of (PyFloat f) = Some f"
| "num_of _ = None"

definition py_eq :: "pyobj \<Rightarrow> pyobj \<Rightarrow> bool" where
  "py_eq x y =
     (case (x, y) of
        (PyNone, PyNone) \<Rightarrow> True
      | (PyStr a, PyStr b) \<Rightarrow> a = b
      | _ \<Rightarrow> (case (num_of x, num_of y) of
                (Some p, Some q) \<Rightarrow> p \<noteq> NaN \<and> p = q
              | _ \<Rightarrow> False))"

fun hashable :: "pyobj \<Rightarrow> bool" where
  "hashable (PyList xs) = False"
| "hashable (PyDict kvs) = False"
| "hashable (OrderedDict kvs) = False"
| "hashable _ = True"

definition key_eq :: "pyobj list \<Rightarrow> addr \<Rightarrow> addr \<Rightarrow> bool" where
  "key_eq h a b = (a = b \<or> py_eq (h ! a) (h ! b))"

text \<open>
  Storing under a key: an entry with the same key keeps its place and its key object and
  takes the new value; a new key goes to the end.
\<close>

fun dict_set :: "pyobj list \<Rightarrow> (addr \<times> addr) list \<Rightarrow> addr \<Rightarrow> addr \<Rightarrow> (addr \<times> addr) list" where
  "dict_set h [] k v = [(k, v)]"
| "dict_set h ((k', v') # r) k v =
     (if key_eq h k' k then (k', v) # r else (k', v') # dict_set h r k v)"

text \<open>
  What CPython's abstract-object functions do with a \<^verbatim>\<open>NULL\<close> object: \<^verbatim>\<open>SystemError\<close>,
  unless an exception is pending already.
\<close>

definition null_error :: "pystate \<Rightarrow> pystate" where
  "null_error s = (if err s = None then s\<lparr>err := Some SystemError\<rparr> else s)"

text \<open>
  Modelled from the spec: the wrapper that the external tag hook returns "wraps the
  container identity that children later mutate into", so it passes \<^verbatim>\<open>append\<close> and the
  storing of an item on to the container it wraps.
\<close>

definition unwrap :: "pyobj list \<Rightarrow> addr \<Rightarrow> addr" where
  "unwrap h a = (case h ! a of Tagged t i \<Rightarrow> i | _ \<Rightarrow> a)"

text \<open>
  \<^verbatim>\<open>PyObject_CallMethod(result, "append", "O", subresult) != NULL\<close>, and
  \<^verbatim>\<open>PyObject_SetItem(result, key, value) == 0\<close>.
\<close>

definition PyObject_CallMethod_append :: "addr option \<Rightarrow> addr \<Rightarrow> pystate \<Rightarrow> bool \<times> pystate" where
  "PyObject_CallMethod_append result x s =
     (case result of
        None \<Rightarrow> (False, null_error s)
      | Some a \<Rightarrow>
          (case heap s ! unwrap (heap s) a of
             PyList xs \<Rightarrow> (True, s\<lparr>heap := (heap s)[unwrap (heap s) a := PyList (xs @ [x])]\<rparr>)
           | _ \<Rightarrow> (False, PyErr_SetString AttributeError s)))"

definition PyObject_SetItem :: "addr option \<Rightarrow> addr \<Rightarrow> addr \<Rightarrow> pystate \<Rightarrow> bool \<times> pystate" where
  "PyObject_SetItem result k v s =
     (case result of
        None \<Rightarrow> (False, null_error s)
      | Some a \<Rightarrow>
          (case heap s ! unwrap (heap s) a of
             PyDict kvs \<Rightarrow>
               if hashable (heap s ! k)
               then (True, s\<lparr>heap := (heap s)[unwrap (heap s) a := PyDict (dict_set (heap s) kvs k v)]\<rparr>)
               else (False, PyErr_SetString TypeError s)
           | OrderedDict kvs \<Rightarrow>
               if hashable (heap s ! k)
               then (True, s\<lparr>heap := (heap s)[unwrap (heap s) a := OrderedDict (dict_set (heap s) kvs k v)]\<rparr>)
               else (False, PyErr_SetString TypeError s)
           | _ \<Rightarrow> (False, PyErr_SetString TypeError s)))"

subsection \<open>The node builder\<close>

definition is_omap :: "string option \<Rightarrow> bool" where
  "is_omap tag = (case tag of None \<Rightarrow> False | Some t \<Rightarrow> strncmp_eq t ''tag:yaml.org,2002:omap'' 23)"

text \<open>
  The builder is recursive through the events it pulls, so \<open>parse_node\<close> takes fuel,
  and \<open>None\<close> means that the fuel ran out. The functions that \<^verbatim>\<open>parse_node\<close> calls and
  that call it back take that recursive call as their first argument \<open>pn\<close>
  (\<open>parse_node\<close> with the fuel that is left) and a bound \<open>k\<close> on the iterations of
  their loop. \<open>seq_loop\<close>, \<open>map_loop\<close> and \<open>omap_loop\<close> are the \<^verbatim>\<open>while\<close> loops of
  \<^verbatim>\<open>parse_sequence\<close>, \<^verbatim>\<open>parse_mapping\<close> and \<^verbatim>\<open>parse_ordered_dict\<close>.
\<close>

type_synonym node_parser = "pystate \<Rightarrow> outcome option"

fun omap_loop :: "node_parser \<Rightarrow> nat \<Rightarrow> addr \<Rightarrow> pystate \<Rightarrow> outcome option" where
  "omap_loop pn 0 result s = None"
| "omap_loop pn (Suc k) result s =
     (let (ok, s1) = yaml_parser_parse s in
      if \<not> ok then Some (Ret None (PyErr_SetString (ValueError ''Parsing error 1'') s1))
      else if event s1 = YAML_SEQUENCE_END_EVENT then Some (Ret (Some result) s1)
      else if (case event s1 of YAML_MAPPING_START_EVENT a t \<Rightarrow> False | _ \<Rightarrow> True)
      then Some (Ret None (PyErr_SetString
                   (ValueError ''Expected mapping start or sequence end event'') s1))
      else
        (case pn s1 of
           None \<Rightarrow> None
         | Some (Crash s2) \<Rightarrow> Some (Crash s2)
         | Some (Ret None s2) \<Rightarrow> Some (Ret None s2)
         | Some (Ret (Some key) s2) \<Rightarrow>
             (case pn s2 of
                None \<Rightarrow> None
              | Some (Crash s3) \<Rightarrow> Some (Crash s3)
              | Some (Ret None s3) \<Rightarrow> Some (Ret None s3)
              | Some (Ret (Some val) s3) \<Rightarrow>
                  (let (ok1, s4) = PyObject_SetItem (Some result) key val s3 in
                   if \<not> ok1 then Some (Ret None s4)
                   else
                     (let (ok2, s5) = yaml_parser_parse s4 in
                      if \<not> ok2
                      then Some (Ret None (PyErr_SetString (ValueError ''Parsing error 2'') s5))
                      else if event s5 \<noteq> YAML_MAPPING_END_EVENT
                      then Some (Ret None (PyErr_SetString
                                   (ValueError ''Expected mapping end event'') s5))
                      else omap_loop pn k result s5)))))"

text \<open>
  \<^verbatim>\<open>PyObject_CallObject(ordered_dict, NULL)\<close> makes an empty ordered dictionary (of
  \<^verbatim>\<open>astropy.utils.compat.odict\<close>).
\<close>

definition parse_ordered_dict :: "node_parser \<Rightarrow> nat \<Rightarrow> pystate \<Rightarrow> outcome option" where
  "parse_ordered_dict pn k s =
     (let (a, s1) = alloc (OrderedDict []) s;
          s2 = memo_anchor (ev_anchor (event s)) (Some a) s1
      in omap_loop pn k a s2)"

fun seq_loop :: "node_parser \<Rightarrow> nat \<Rightarrow> addr option \<Rightarrow> pystate \<Rightarrow> outcome option" where
  "seq_loop pn 0 result s = None"
| "seq_loop pn (Suc k) result s =
     (case pn s of
        None \<Rightarrow> None
      | Some (Crash s1) \<Rightarrow> Some (Crash s1)
      | Some (Ret (Some subresult) s1) \<Rightarrow>
          (let (ok, s2) = PyObject_CallMethod_append result subresult s1 in
           if \<not> ok then Some (decref_return_null result s2)
           else seq_loop pn k result s2)
      | Some (Ret None s1) \<Rightarrow>
          if event s1 \<noteq> YAML_SEQUENCE_END_EVENT
          then Some (decref_return_null result
                       (PyErr_SetString (ValueError ''Expected sequence end event'') s1))
          else Some (Ret result s1))"

definition parse_sequence :: "node_parser \<Rightarrow> hook \<Rightarrow> nat \<Rightarrow> pystate \<Rightarrow> outcome option" where
  "parse_sequence pn tag_object_method k s =
     (if is_omap (ev_tag (event s)) then parse_ordered_dict pn k s
      else
        (let (a, s1) = alloc (PyList []) s;
             (result, s2) = tag_object tag_object_method (ev_tag (event s)) (Some a) s1;
             s3 = memo_anchor (ev_anchor (event s)) result s2
         in seq_loop pn k result s3))"

fun map_loop :: "node_parser \<Rightarrow> nat \<Rightarrow> addr option \<Rightarrow> pystate \<Rightarrow> outcome option" where
  "map_loop pn 0 result s = None"
| "map_loop pn (Suc k) result s =
     (case pn s of
        None \<Rightarrow> None
      | Some (Crash s1) \<Rightarrow> Some (Crash s1)
      | Some (Ret (Some key) s1) \<Rightarrow>
          (case pn s1 of
             None \<Rightarrow> None
           | Some (Crash s2) \<Rightarrow> Some (Crash s2)
           | Some (Ret None s2) \<Rightarrow> Some (decref_return_null result s2)
           | Some (Ret (Some val) s2) \<Rightarrow>
               (let (ok, s3) = PyObject_SetItem result key val s2 in
                if \<not> ok then Some (decref_return_null result s3)
                else map_loop pn k result s3))
      | Some (Ret None s1) \<Rightarrow>
          if event s1 \<noteq> YAML_MAPPING_END_EVENT
          then Some (decref_return_null result
                       (PyErr_SetString (ValueError ''Expected mapping end event'') s1))
          else Some (Ret result s1))"

definition parse_mapping :: "node_parser \<Rightarrow> hook \<Rightarrow> nat \<Rightarrow> pystate \<Rightarrow> outcome option" where
  "parse_mapping pn tag_object_method k s =
     (let (a, s1) = alloc (PyDict []) s;
          (result, s2) = tag_object tag_object_method (ev_tag (event s)) (Some a) s1;
          s3 = memo_anchor (ev_anchor (event s)) result s2
      in map_loop pn k result s3)"

fun parse_node :: "hook \<Rightarrow> nat \<Rightarrow> pystate \<Rightarrow> outcome option" where
  "parse_node tag_object_method 0 s = None"
| "parse_node tag_object_method (Suc n) s =
     (let (ok, s1) = yaml_parser_parse s in
      if \<not> ok then Some (Ret None (PyErr_SetString (ValueError ''Parsing error 3'') s1))
      else
        (case event s1 of
           YAML_ALIAS_EVENT a \<Rightarrow> Some (make_alias a s1)
         | YAML_SCALAR_EVENT a t v st \<Rightarrow> Some (make_scalar tag_object_method s1)
         | YAML_SEQUENCE_START_EVENT a t \<Rightarrow>
             parse_sequence (parse_node tag_object_method n) tag_object_method n s1
         | YAML_MAPPING_START_EVENT a t \<Rightarrow>
             parse_mapping (parse_node tag_object_method n) tag_object_method n s1
         | _ \<Rightarrow> Some (Ret None s1)))"

subsection \<open>Document, stream and entry point\<close>

text \<open>\<^verbatim>\<open>parse_document\<close>: \<^verbatim>\<open>PyDict_New\<close> gives the document its empty anchor table.\<close>

definition parse_document :: "hook \<Rightarrow> nat \<Rightarrow> pystate \<Rightarrow> outcome option" where
  "parse_document tag_object_method n s =
     (let (ok, s1) = yaml_parser_parse (s\<lparr>anchors := Map.empty\<rparr>) in
      if \<not> ok then Some (Ret None (PyErr_SetString (ValueError ''Parsing error 4'') s1))
      else if event s1 = YAML_DOCUMENT_START_EVENT then
        (case parse_node tag_object_method n s1 of
           None \<Rightarrow> None
         | Some (Crash s2) \<Rightarrow> Some (Crash s2)
         | Some (Ret None s2) \<Rightarrow> Some (Ret None s2)
         | Some (Ret (Some result) s2) \<Rightarrow>
             (let (ok2, s3) = yaml_parser_parse s2 in
              if \<not> ok2
              then Some (Ret None (PyErr_SetString (ValueError ''Parsing error 5'') s3))
              else if event s3 = YAML_DOCUMENT_END_EVENT then Some (Ret (Some result) s3)
              else Some (Ret None (PyErr_SetString
                           (ValueError ''Expected document end event'') s3))))
      else Some (Ret None (PyErr_SetString (ValueError ''Expected document start event'') s1)))"

definition parse_stream :: "hook \<Rightarrow> nat \<Rightarrow> pystate \<Rightarrow> outcome option" where
  "parse_stream tag_object_method n s =
     (let (ok, s1) = yaml_parser_parse s in
      if \<not> ok then Some (Ret None (PyErr_SetString (ValueError ''Parsing error 6'') s1))
      else if event s1 = YAML_STREAM_START_EVENT then
        (case parse_document tag_object_method n s1 of
           None \<Rightarrow> None
         | Some (Crash s2) \<Rightarrow> Some (Crash s2)
         | Some (Ret None s2) \<Rightarrow> Some (Ret None s2)
         | Some (Ret (Some result) s2) \<Rightarrow>
             (let (ok2, s3) = yaml_parser_parse s2 in
              if \<not> ok2
              then Some (Ret None (PyErr_SetString (ValueError ''Parsing error 7'') s3))
              else if event s3 = YAML_STREAM_END_EVENT then Some (Ret (Some result) s3)
              else Some (Ret None (PyErr_SetString
                           (ValueError ''Expected stream end event'') s3))))
      else Some (Ret None (PyErr_SetString (ValueError ''Expected stream start event'') s1)))"

text \<open>
  \<^verbatim>\<open>parse_yaml\<close>, on the events that libyaml makes of the bytes of the file object:
  the value returned to Python with the final heap, the exception raised, or a crash.
  The fuel is more than the input can use (\<open>parse_yaml_returns\<close> below).
\<close>

datatype pyresult = Returned addr pystate | Raised pyerr pystate | Crashed pystate

definition initial :: "parser_item list \<Rightarrow> pystate" where
  "initial items =
     \<lparr>heap = [], anchors = Map.empty, events = items, event = YAML_NO_EVENT,
      err = None, trace = []\<rparr>"

definition parse_yaml :: "hook \<Rightarrow> parser_item list \<Rightarrow> pyresult option" where
  "parse_yaml tag_object_method items =
     (case parse_stream tag_object_method (Suc (length items)) (initial items) of
        None \<Rightarrow> None
      | Some (Crash s) \<Rightarrow> Some (Crashed s)
      | Some (Ret None s) \<Rightarrow>
          (case err s of
             None \<Rightarrow> Some (Raised (ValueError ''Error parsing YAML'') s)
           | Some e \<Rightarrow> Some (Raised e s))
      | Some (Ret (Some result) s) \<Rightarrow>
          (case err s of
             None \<Rightarrow> Some (Returned result s)
           | Some e \<Rightarrow> Some (Raised e s)))"

section \<open>Notions for reasoning about a run\<close>

text \<open>
  The definitions of this section serve the proofs: the program does not compute them.

  A relation between the state before and the state after is \<open>stable\<close> when it is
  reflexive and transitive and every basic step of the builder respects it: pulling an
  event, setting an exception, an alias, a scalar, the opening of a container (allocate,
  tag, register), appending to a list and storing in a dictionary. Every run of
  \<open>parse_node\<close> then respects it.
\<close>

definition stable :: "hook \<Rightarrow> (pystate \<Rightarrow> pystate \<Rightarrow> bool) \<Rightarrow> bool" where
  "stable h R =
     ((\<forall>s. R s s) \<and> (\<forall>a b c. R a b \<longrightarrow> R b c \<longrightarrow> R a c)
      \<and> (\<forall>s. R s (snd (yaml_parser_parse s)))
      \<and> (\<forall>e s. R s (PyErr_SetString e s))
      \<and> (\<forall>n s. R s (state_of (make_alias n s)))
      \<and> (\<forall>s. R s (state_of (make_scalar h s)))
      \<and> (\<forall>obj t n s.
            R s (memo_anchor n (fst (tag_object h t (Some (fst (alloc obj s))) (snd (alloc obj s))))
                   (snd (tag_object h t (Some (fst (alloc obj s))) (snd (alloc obj s))))))
      \<and> (\<forall>r x s. R s (snd (PyObject_CallMethod_append r x s)))
      \<and> (\<forall>r k v s. R s (snd (PyObject_SetItem r k v s))))"

text \<open>The input is only used up; the heap and the trace only grow, and every call of
  the tag hook is for an object that did not exist before.\<close>

definition shrinks :: "pystate \<Rightarrow> pystate \<Rightarrow> bool" where
  "shrinks s s' = (length (events s') \<le> length (events s))"

definition extends :: "pystate \<Rightarrow> pystate \<Rightarrow> bool" where
  "extends s s' =
     (length (heap s) \<le> length (heap s') \<and>
      (\<exists>ext. trace s' = trace s @ ext \<and> (\<forall>t x r. Tag t x r \<in> set ext \<longrightarrow> length (heap s) \<le> x)))"





text \<open>
  A lookup failed in the trace; the call ended in a crash, or with \<^verbatim>\<open>NULL\<close> and the
  alias event still in the event slot.
\<close>

fun is_alias :: "yaml_event \<Rightarrow> bool" where
  "is_alias (YAML_ALIAS_EVENT n) = True"
| "is_alias _ = False"


fun stopped_at_alias :: "outcome \<Rightarrow> bool" where
  "stopped_at_alias (Crash s) = True"
| "stopped_at_alias (Ret None s) = is_alias (event s)"
| "stopped_at_alias (Ret (Some a) s) = False"

text \<open>The parts of a result of \<open>parse_yaml\<close>.\<close>

fun result_state :: "pyresult \<Rightarrow> pystate" where
  "result_state (Returned a s) = s"
| "result_state (Raised e s) = s"
| "result_state (Crashed s) = s"


fun returned :: "pyresult \<Rightarrow> addr option" where
  "returned (Returned a s) = Some a"
| "returned _ = None"


definition hook_wrap :: hook where
  "hook_wrap t obj = HookWrap"

text \<open>The resolver returned nothing, or an object that can be a key.\<close>

definition keyable :: "pyobj option \<times> pyerr option \<Rightarrow> bool" where
  "keyable x = (case fst x of None \<Rightarrow> True | Some obj \<Rightarrow> hashable obj)"

fun crashed :: "outcome \<Rightarrow> bool" where
  "crashed (Crash s) = True"
| "crashed (Ret r s) = False"

section \<open>Properties of the scalar resolver\<close>

lemmas resolver_defs =
  u_make_scalar_def value_at_def strncmp_eq_def cstr_def NUL_def generic_numeric_def
  try_int_def PyLong_FromString_def skip_prefix_def digit_value_def digits_value_def
  Py_ISSPACE_def is_digit_def PyOS_string_to_double_def dg_strtod_def scan_decimal_def
  parse_inf_or_nan_def treat_as_string_def PyUnicode_DecodeUTF8_def lower_def Let_def

lemma treat_as_string_kind: "fst (treat_as_string v e) = Some obj \<Longrightarrow> obj = PyStr v"
  by (auto simp: treat_as_string_def PyUnicode_DecodeUTF8_def split: if_splits)

lemma generic_numeric_kind:
  "fst (generic_numeric v ns e) = Some obj \<Longrightarrow>
     (\<exists>z. obj = PyInt z) \<or> (\<exists>f. obj = PyFloat f) \<or> obj = PyStr v"
  by (auto simp: generic_numeric_def Let_def split: if_splits prod.splits option.splits
      dest: treat_as_string_kind)

lemma treat_as_string_not [simp]:
  "fst (treat_as_string v e) \<noteq> Some PyNone"
  "fst (treat_as_string v e) \<noteq> Some (PyBool b)"
  "fst (treat_as_string v e) \<noteq> Some (PyInt z)"
  "fst (treat_as_string v e) \<noteq> Some (PyFloat f)"
  using treat_as_string_kind[of v e] by auto

lemma generic_numeric_not [simp]:
  "fst (generic_numeric v ns e) \<noteq> Some PyNone"
  "fst (generic_numeric v ns e) \<noteq> Some (PyBool b)"
  using generic_numeric_kind[of v ns e] by auto

lemma int_or_generic_not [simp]:
  "fst (case try_int v k b e of (Some z, e1) \<Rightarrow> (Some (PyInt z), e1)
          | (None, e1) \<Rightarrow> generic_numeric v' ns e1) \<noteq> Some PyNone"
  "fst (case try_int v k b e of (Some z, e1) \<Rightarrow> (Some (PyInt z), e1)
          | (None, e1) \<Rightarrow> generic_numeric v' ns e1) \<noteq> Some (PyBool x)"
  by (simp_all split: prod.splits option.splits)

lemma cstr_Cons: "cstr (c # r) = (if c = NUL then [] else c # cstr r)"
  by (simp add: cstr_def)

lemma cstr_no_NUL: "NUL \<notin> set (cstr p)"
  by (auto simp: cstr_def dest: set_takeWhileD)

lemma cstr_id: "NUL \<notin> set p \<Longrightarrow> cstr p = p"
  by (auto simp: cstr_def takeWhile_eq_all_conv)

text \<open>
  Comparing one character more than the literal has compares the terminator too, so the
  test holds for the literal only.
\<close>

lemma strncmp_eq_literal:
  assumes "NUL \<notin> set lit" "n = Suc (length lit)"
  shows "strncmp_eq p lit n = (cstr p = lit)"
proof
  assume "cstr p = lit"
  then show "strncmp_eq p lit n"
    by (simp add: strncmp_eq_def cstr_id assms cstr_no_NUL)
next
  assume h: "strncmp_eq p lit n"
  then have eq: "take (Suc (length lit)) (cstr p @ [NUL]) = lit @ [NUL]"
    using assms by (simp add: strncmp_eq_def cstr_id)
  show "cstr p = lit"
  proof (cases "length (cstr p) \<le> length lit")
    case True
    then have "take (Suc (length lit)) (cstr p @ [NUL]) = cstr p @ [NUL]" by simp
    with eq show ?thesis by simp
  next
    case False
    then have "take (Suc (length lit)) (cstr p @ [NUL]) = take (Suc (length lit)) (cstr p)"
      by simp
    with eq have "take (Suc (length lit)) (cstr p) = lit @ [NUL]" by simp
    then have "NUL \<in> set (take (Suc (length lit)) (cstr p))" by simp
    then have "NUL \<in> set (cstr p)" by (rule in_set_takeD)
    with cstr_no_NUL show ?thesis by blast
  qed
qed

lemma not_null_unless_n:
  "value_at v 0 \<noteq> CHR ''n'' \<Longrightarrow> fst (u_make_scalar style v e) \<noteq> Some PyNone"
  by (simp add: u_make_scalar_def Let_def)

lemma not_true_unless_t:
  "value_at v 0 \<noteq> CHR ''t'' \<Longrightarrow> fst (u_make_scalar style v e) \<noteq> Some (PyBool True)"
  by (simp add: u_make_scalar_def Let_def)

lemma not_false_unless_f:
  "value_at v 0 \<noteq> CHR ''f'' \<Longrightarrow> fst (u_make_scalar style v e) \<noteq> Some (PyBool False)"
  by (simp add: u_make_scalar_def Let_def)

lemma keyword_test:
  assumes "NUL \<notin> set lit" "n = Suc (length lit)" "c \<noteq> NUL"
  shows "strncmp_eq (drop 1 (c # r)) lit n = (cstr (c # r) = c # lit)"
  using assms by (simp add: strncmp_eq_literal cstr_Cons)

lemma null_only:
  assumes "unquoted style"
  shows "(fst (u_make_scalar style v e) = Some PyNone) = (cstr v = ''null'')"
proof (cases v)
  case Nil
  then show ?thesis by (simp add: u_make_scalar_def cstr_def)
next
  case (Cons c r)
  show ?thesis
  proof (cases "c = CHR ''n''")
    case True
    have "strncmp_eq (drop 1 v) ''ull'' 4 = (cstr v = ''null'')"
      unfolding Cons True by (subst keyword_test) (simp_all add: NUL_def)
    moreover have "value_at v 0 = CHR ''n''" using Cons True by (simp add: value_at_def)
    moreover have "v \<noteq> []" using Cons by simp
    ultimately show ?thesis using assms
      by (simp add: u_make_scalar_def unquoted_def)
  next
    case False
    then have "cstr v \<noteq> ''null''" using Cons by (simp add: cstr_Cons)
    moreover have "fst (u_make_scalar style v e) \<noteq> Some PyNone"
      using False Cons by (intro not_null_unless_n) (simp add: value_at_def)
    ultimately show ?thesis by simp
  qed
qed

lemma true_only:
  assumes "unquoted style"
  shows "(fst (u_make_scalar style v e) = Some (PyBool True)) = (cstr v = ''true'')"
proof (cases v)
  case Nil
  then show ?thesis by (simp add: u_make_scalar_def cstr_def)
next
  case (Cons c r)
  show ?thesis
  proof (cases "c = CHR ''t''")
    case True
    have "strncmp_eq (drop 1 v) ''rue'' 4 = (cstr v = ''true'')"
      unfolding Cons True by (subst keyword_test) (simp_all add: NUL_def)
    moreover have "value_at v 0 = CHR ''t''" using Cons True by (simp add: value_at_def)
    moreover have "v \<noteq> []" using Cons by simp
    ultimately show ?thesis using assms
      by (simp add: u_make_scalar_def unquoted_def)
  next
    case False
    then have "cstr v \<noteq> ''true''" using Cons by (simp add: cstr_Cons)
    moreover have "fst (u_make_scalar style v e) \<noteq> Some (PyBool True)"
      using False Cons by (intro not_true_unless_t) (simp add: value_at_def)
    ultimately show ?thesis by simp
  qed
qed

lemma false_only:
  assumes "unquoted style"
  shows "(fst (u_make_scalar style v e) = Some (PyBool False)) = (cstr v = ''false'')"
proof (cases v)
  case Nil
  then show ?thesis by (simp add: u_make_scalar_def cstr_def)
next
  case (Cons c r)
  show ?thesis
  proof (cases "c = CHR ''f''")
    case True
    have "strncmp_eq (drop 1 v) ''alse'' 5 = (cstr v = ''false'')"
      unfolding Cons True by (subst keyword_test) (simp_all add: NUL_def)
    moreover have "value_at v 0 = CHR ''f''" using Cons True by (simp add: value_at_def)
    moreover have "v \<noteq> []" using Cons by simp
    ultimately show ?thesis using assms
      by (simp add: u_make_scalar_def unquoted_def)
  next
    case False
    then have "cstr v \<noteq> ''false''" using Cons by (simp add: cstr_Cons)
    moreover have "fst (u_make_scalar style v e) \<noteq> Some (PyBool False)"
      using False Cons by (intro not_false_unless_f) (simp add: value_at_def)
    ultimately show ?thesis by simp
  qed
qed

text \<open>
  Claim C6. A scalar of length 0, or in single or double quotes, resolves to the string
  of its bytes, whatever they spell: never to null, a boolean, an integer or a float. The
  one other outcome is the failure of the UTF-8 decoding, with \<^verbatim>\<open>UnicodeDecodeError\<close>.
\<close>

theorem quoted_or_empty_is_string:
  assumes "length v = 0 \<or> style = YAML_SINGLE_QUOTED_SCALAR_STYLE
             \<or> style = YAML_DOUBLE_QUOTED_SCALAR_STYLE"
  shows "u_make_scalar style v e =
           (if utf8_valid (map of_char v) then (Some (PyStr v), e)
            else (None, Some UnicodeDecodeError))
         \<and> fst (u_make_scalar style v e) \<noteq> Some PyNone
         \<and> (\<forall>b. fst (u_make_scalar style v e) \<noteq> Some (PyBool b))
         \<and> (\<forall>z. fst (u_make_scalar style v e) \<noteq> Some (PyInt z))
         \<and> (\<forall>f. fst (u_make_scalar style v e) \<noteq> Some (PyFloat f))"
proof -
  have "u_make_scalar style v e = treat_as_string v e"
    using assms by (auto simp: u_make_scalar_def)
  then show ?thesis
    by (simp add: treat_as_string_def PyUnicode_DecodeUTF8_def)
qed

theorem quoted_or_empty_is_string_witness:
  "u_make_scalar YAML_DOUBLE_QUOTED_SCALAR_STYLE ''123'' None = (Some (PyStr ''123''), None)
   \<and> u_make_scalar YAML_SINGLE_QUOTED_SCALAR_STYLE ''true'' None = (Some (PyStr ''true''), None)
   \<and> u_make_scalar YAML_PLAIN_SCALAR_STYLE [] None = (Some (PyStr []), None)"
  using quoted_or_empty_is_string [of "''123''" YAML_DOUBLE_QUOTED_SCALAR_STYLE None]
    quoted_or_empty_is_string [of "''true''" YAML_SINGLE_QUOTED_SCALAR_STYLE None]
    quoted_or_empty_is_string [of "[]" YAML_PLAIN_SCALAR_STYLE None]
  by simp

text \<open>
  Claim C7. An unquoted hexadecimal or octal scalar counts only when the whole text is
  the number: \<^verbatim>\<open>0x1A\<close> is 26, \<^verbatim>\<open>0x1G\<close> is the string, \<^verbatim>\<open>010\<close> is 8, \<^verbatim>\<open>0\<close> is 0, and
  \<^verbatim>\<open>019\<close>, which is not octal, is read in base 10 as 19.
\<close>

theorem hex_octal_whole_match:
  assumes "unquoted style"
  shows "fst (u_make_scalar style ''0x1A'' e) = Some (PyInt 26)
         \<and> fst (u_make_scalar style ''0x1G'' e) = Some (PyStr ''0x1G'')
         \<and> fst (u_make_scalar style ''010'' e) = Some (PyInt 8)
         \<and> fst (u_make_scalar style ''0'' e) = Some (PyInt 0)
         \<and> fst (u_make_scalar style ''019'' e) = Some (PyInt 19)"
proof -
  have "fst (u_make_scalar style ''0x1A'' e) = Some (PyInt 26)"
    using assms by (simp add: unquoted_def resolver_defs)
  moreover have "fst (u_make_scalar style ''0x1G'' e) = Some (PyStr ''0x1G'')"
    using assms by (simp add: unquoted_def resolver_defs)
  moreover have "fst (u_make_scalar style ''010'' e) = Some (PyInt 8)"
    using assms by (simp add: unquoted_def resolver_defs)
  moreover have "fst (u_make_scalar style ''0'' e) = Some (PyInt 0)"
    using assms by (simp add: unquoted_def resolver_defs)
  moreover have "fst (u_make_scalar style ''019'' e) = Some (PyInt 19)"
    using assms by (simp add: unquoted_def resolver_defs)
  ultimately show ?thesis by simp
qed

theorem hex_octal_whole_match_witness:
  "unquoted YAML_PLAIN_SCALAR_STYLE
   \<and> fst (u_make_scalar YAML_PLAIN_SCALAR_STYLE ''0x1A'' None) = Some (PyInt 26)
   \<and> fst (u_make_scalar YAML_PLAIN_SCALAR_STYLE ''0x1G'' None) = Some (PyStr ''0x1G'')
   \<and> fst (u_make_scalar YAML_PLAIN_SCALAR_STYLE ''010'' None) = Some (PyInt 8)
   \<and> fst (u_make_scalar YAML_PLAIN_SCALAR_STYLE ''0'' None) = Some (PyInt 0)
   \<and> fst (u_make_scalar YAML_PLAIN_SCALAR_STYLE ''019'' None) = Some (PyInt 19)"
proof -
  have u: "unquoted YAML_PLAIN_SCALAR_STYLE" by (simp add: unquoted_def)
  show ?thesis using u hex_octal_whole_match [OF u, of None] by simp
qed

text \<open>
  Claim C8. Unquoted, the texts \<^verbatim>\<open>.NaN\<close> and \<^verbatim>\<open>.nan\<close> are the float NaN, \<^verbatim>\<open>.Inf\<close>,
  \<^verbatim>\<open>.inf\<close>, \<^verbatim>\<open>+.Inf\<close> and \<^verbatim>\<open>+.inf\<close> are plus infinity, \<^verbatim>\<open>-.Inf\<close> and \<^verbatim>\<open>-.inf\<close> are
  minus infinity. The spellings are compared byte by byte before any number is parsed:
  another case, as in \<^verbatim>\<open>.INF\<close>, \<^verbatim>\<open>.NAN\<close> or \<^verbatim>\<open>-.INF\<close>, gives a string.
\<close>

theorem nan_inf_literals:
  assumes "unquoted style"
  shows "fst (u_make_scalar style ''.NaN'' e) = Some (PyFloat NaN)
         \<and> fst (u_make_scalar style ''.nan'' e) = Some (PyFloat NaN)
         \<and> fst (u_make_scalar style ''.Inf'' e) = Some (PyFloat PosInf)
         \<and> fst (u_make_scalar style ''.inf'' e) = Some (PyFloat PosInf)
         \<and> fst (u_make_scalar style ''-.Inf'' e) = Some (PyFloat NegInf)
         \<and> fst (u_make_scalar style ''-.inf'' e) = Some (PyFloat NegInf)
         \<and> fst (u_make_scalar style ''+.Inf'' e) = Some (PyFloat PosInf)
         \<and> fst (u_make_scalar style ''+.inf'' e) = Some (PyFloat PosInf)
         \<and> fst (u_make_scalar style ''.INF'' e) = Some (PyStr ''.INF'')
         \<and> fst (u_make_scalar style ''.NAN'' e) = Some (PyStr ''.NAN'')
         \<and> fst (u_make_scalar style ''-.INF'' e) = Some (PyStr ''-.INF'')"
proof -
  have "fst (u_make_scalar style ''.NaN'' e) = Some (PyFloat NaN)"
    using assms by (simp add: unquoted_def resolver_defs)
  moreover have "fst (u_make_scalar style ''.nan'' e) = Some (PyFloat NaN)"
    using assms by (simp add: unquoted_def resolver_defs)
  moreover have "fst (u_make_scalar style ''.Inf'' e) = Some (PyFloat PosInf)"
    using assms by (simp add: unquoted_def resolver_defs)
  moreover have "fst (u_make_scalar style ''.inf'' e) = Some (PyFloat PosInf)"
    using assms by (simp add: unquoted_def resolver_defs)
  moreover have "fst (u_make_scalar style ''-.Inf'' e) = Some (PyFloat NegInf)"
    using assms by (simp add: unquoted_def resolver_defs)
  moreover have "fst (u_make_scalar style ''-.inf'' e) = Some (PyFloat NegInf)"
    using assms by (simp add: unquoted_def resolver_defs)
  moreover have "fst (u_make_scalar style ''+.Inf'' e) = Some (PyFloat PosInf)"
    using assms by (simp add: unquoted_def resolver_defs)
  moreover have "fst (u_make_scalar style ''+.inf'' e) = Some (PyFloat PosInf)"
    using assms by (simp add: unquoted_def resolver_defs)
  moreover have "fst (u_make_scalar style ''.INF'' e) = Some (PyStr ''.INF'')"
    using assms by (simp add: unquoted_def resolver_defs)
  moreover have "fst (u_make_scalar style ''.NAN'' e) = Some (PyStr ''.NAN'')"
    using assms by (simp add: unquoted_def resolver_defs)
  moreover have "fst (u_make_scalar style ''-.INF'' e) = Some (PyStr ''-.INF'')"
    using assms by (simp add: unquoted_def resolver_defs)
  ultimately show ?thesis by simp
qed

theorem nan_inf_literals_witness:
  "unquoted YAML_PLAIN_SCALAR_STYLE
   \<and> fst (u_make_scalar YAML_PLAIN_SCALAR_STYLE ''.NaN'' None) = Some (PyFloat NaN)
   \<and> fst (u_make_scalar YAML_PLAIN_SCALAR_STYLE ''-.inf'' None) = Some (PyFloat NegInf)
   \<and> fst (u_make_scalar YAML_PLAIN_SCALAR_STYLE ''+.Inf'' None) = Some (PyFloat PosInf)
   \<and> fst (u_make_scalar YAML_PLAIN_SCALAR_STYLE ''.INF'' None) = Some (PyStr ''.INF'')"
proof -
  have u: "unquoted YAML_PLAIN_SCALAR_STYLE" by (simp add: unquoted_def)
  show ?thesis using u nan_inf_literals [OF u, of None] by simp
qed

text \<open>
  Claim C9. An unquoted scalar is null exactly when its text is \<^verbatim>\<open>null\<close>, the boolean
  true exactly when it is \<^verbatim>\<open>true\<close> and false exactly when it is \<^verbatim>\<open>false\<close>, all in lower
  case; \<^verbatim>\<open>Null\<close>, \<^verbatim>\<open>NULL\<close>, \<^verbatim>\<open>~\<close>, \<^verbatim>\<open>True\<close>, \<^verbatim>\<open>TRUE\<close>, \<^verbatim>\<open>False\<close> and \<^verbatim>\<open>FALSE\<close> are
  strings. (The text is read as a C string, up to its first NUL byte.)
\<close>

theorem lowercase_keywords_only:
  assumes "unquoted style"
  shows "(fst (u_make_scalar style v e) = Some PyNone) = (cstr v = ''null'')
         \<and> (fst (u_make_scalar style v e) = Some (PyBool True)) = (cstr v = ''true'')
         \<and> (fst (u_make_scalar style v e) = Some (PyBool False)) = (cstr v = ''false'')
         \<and> fst (u_make_scalar style ''Null'' e) = Some (PyStr ''Null'')
         \<and> fst (u_make_scalar style ''NULL'' e) = Some (PyStr ''NULL'')
         \<and> fst (u_make_scalar style ''~'' e) = Some (PyStr ''~'')
         \<and> fst (u_make_scalar style ''True'' e) = Some (PyStr ''True'')
         \<and> fst (u_make_scalar style ''TRUE'' e) = Some (PyStr ''TRUE'')
         \<and> fst (u_make_scalar style ''False'' e) = Some (PyStr ''False'')
         \<and> fst (u_make_scalar style ''FALSE'' e) = Some (PyStr ''FALSE'')"
proof -
  have "fst (u_make_scalar style ''Null'' e) = Some (PyStr ''Null'')"
    using assms by (simp add: unquoted_def resolver_defs)
  moreover have "fst (u_make_scalar style ''NULL'' e) = Some (PyStr ''NULL'')"
    using assms by (simp add: unquoted_def resolver_defs)
  moreover have "fst (u_make_scalar style ''~'' e) = Some (PyStr ''~'')"
    using assms by (simp add: unquoted_def resolver_defs)
  moreover have "fst (u_make_scalar style ''True'' e) = Some (PyStr ''True'')"
    using assms by (simp add: unquoted_def resolver_defs)
  moreover have "fst (u_make_scalar style ''TRUE'' e) = Some (PyStr ''TRUE'')"
    using assms by (simp add: unquoted_def resolver_defs)
  moreover have "fst (u_make_scalar style ''False'' e) = Some (PyStr ''False'')"
    using assms by (simp add: unquoted_def resolver_defs)
  moreover have "fst (u_make_scalar style ''FALSE'' e) = Some (PyStr ''FALSE'')"
    using assms by (simp add: unquoted_def resolver_defs)
  ultimately show ?thesis
    using null_only [OF assms] true_only [OF assms] false_only [OF assms] by simp
qed

theorem lowercase_keywords_only_witness:
  "unquoted YAML_PLAIN_SCALAR_STYLE
   \<and> fst (u_make_scalar YAML_PLAIN_SCALAR_STYLE ''null'' None) = Some PyNone
   \<and> fst (u_make_scalar YAML_PLAIN_SCALAR_STYLE ''true'' None) = Some (PyBool True)
   \<and> fst (u_make_scalar YAML_PLAIN_SCALAR_STYLE ''false'' None) = Some (PyBool False)
   \<and> fst (u_make_scalar YAML_PLAIN_SCALAR_STYLE ''Null'' None) = Some (PyStr ''Null'')
   \<and> fst (u_make_scalar YAML_PLAIN_SCALAR_STYLE ''~'' None) = Some (PyStr ''~'')"
proof -
  have u: "unquoted YAML_PLAIN_SCALAR_STYLE" by (simp add: unquoted_def)
  have c: "cstr ''null'' = ''null''" "cstr ''true'' = ''true''" "cstr ''false'' = ''false''"
    by (simp_all add: cstr_def NUL_def)
  show ?thesis
    using u c lowercase_keywords_only [OF u, of "''null''" None]
      lowercase_keywords_only [OF u, of "''true''" None]
      lowercase_keywords_only [OF u, of "''false''" None]
    by simp
qed

section \<open>Properties of every run of the builder\<close>

subsection \<open>Stable relations\<close>

lemma state_of_decref [simp]: "state_of (decref_return_null p s) = s"
  by (simp add: decref_return_null_def split: option.splits)

lemma stable_refl: "stable h R \<Longrightarrow> R s s"
  unfolding stable_def by simp

lemma stable_trans: "stable h R \<Longrightarrow> R a b \<Longrightarrow> R b c \<Longrightarrow> R a c"
  unfolding stable_def by (elim conjE) meson

lemma stable_pull: "stable h R \<Longrightarrow> yaml_parser_parse s = (ok, s1) \<Longrightarrow> R s s1"
  unfolding stable_def by (elim conjE) (metis snd_conv)

lemma stable_seterr: "stable h R \<Longrightarrow> R s (PyErr_SetString e s)"
  unfolding stable_def by simp

lemma stable_alias: "stable h R \<Longrightarrow> R s (state_of (make_alias n s))"
  unfolding stable_def by simp

lemma stable_scalar: "stable h R \<Longrightarrow> R s (state_of (make_scalar h s))"
  unfolding stable_def by simp

lemma stable_append:
  "stable h R \<Longrightarrow> PyObject_CallMethod_append r x s = (ok, s1) \<Longrightarrow> R s s1"
  unfolding stable_def by (elim conjE) (metis snd_conv)

lemma stable_setitem: "stable h R \<Longrightarrow> PyObject_SetItem r k v s = (ok, s1) \<Longrightarrow> R s s1"
  unfolding stable_def by (elim conjE) (metis snd_conv)

lemma stable_open:
  assumes "stable h R" "alloc obj s = (a, s1)" "tag_object h t (Some a) s1 = (r, s2)"
  shows "R s (memo_anchor n r s2)"
proof -
  have "R s (memo_anchor n (fst (tag_object h t (Some (fst (alloc obj s))) (snd (alloc obj s))))
                   (snd (tag_object h t (Some (fst (alloc obj s))) (snd (alloc obj s)))))"
    using assms(1) unfolding stable_def by blast
  then show ?thesis using assms(2,3) by simp
qed

lemma seq_loop_stable:
  assumes st: "stable h R" and pn: "\<And>s out. pn s = Some out \<Longrightarrow> R s (state_of out)"
  shows "seq_loop pn k result s = Some out \<Longrightarrow> R s (state_of out)"
proof (induction k arbitrary: s)
  case 0
  then show ?case by simp
next
  case (Suc k)
  note tr = stable_trans[OF st]
  show ?case
  proof (cases "pn s")
    case None
    with Suc.prems show ?thesis by simp
  next
    case (Some o1)
    then have r1: "R s (state_of o1)" by (rule pn)
    show ?thesis
    proof (cases o1)
      case (Crash s1)
      with Some Suc.prems r1 show ?thesis by auto
    next
      case (Ret r s1)
      show ?thesis
      proof (cases r)
        case None
        have "R s1 (PyErr_SetString (ValueError ''Expected sequence end event'') s1)"
          by (rule stable_seterr[OF st])
        with r1 Ret have "R s (PyErr_SetString (ValueError ''Expected sequence end event'') s1)"
          by (auto intro: tr)
        with None Ret Some Suc.prems r1 show ?thesis
          by (auto split: if_splits)
      next
        case sub: (Some subresult)
        obtain ok s2 where ap: "PyObject_CallMethod_append result subresult s1 = (ok, s2)"
          by (cases "PyObject_CallMethod_append result subresult s1")
        have "R s1 s2" using stable_append[OF st ap] .
        with r1 Ret have r2: "R s s2" by (auto intro: tr)
        show ?thesis
        proof (cases ok)
          case True
          with sub Ret Some Suc.prems ap have "seq_loop pn k result s2 = Some out" by simp
          then have "R s2 (state_of out)" by (rule Suc.IH)
          with r2 show ?thesis by (rule tr)
        next
          case False
          with sub Ret Some Suc.prems ap r2 show ?thesis by auto
        qed
      qed
    qed
  qed
qed

lemma pn_cases [case_names fuel crash null obj]:
  fixes pn :: node_parser
  obtains "pn s = None"
  | s1 where "pn s = Some (Crash s1)"
  | s1 where "pn s = Some (Ret None s1)"
  | a s1 where "pn s = Some (Ret (Some a) s1)"
proof (cases "pn s")
  case None
  then show ?thesis using that by simp
next
  case (Some o1)
  then show ?thesis using that by (cases o1; cases "case o1 of Ret r _ \<Rightarrow> r | _ \<Rightarrow> None"; simp)
qed

lemma map_loop_stable:
  assumes st: "stable h R" and pn: "\<And>s out. pn s = Some out \<Longrightarrow> R s (state_of out)"
  shows "map_loop pn k result s = Some out \<Longrightarrow> R s (state_of out)"
proof (induction k arbitrary: s)
  case 0
  then show ?case by simp
next
  case (Suc k)
  note tr = stable_trans[OF st]
  show ?case
  proof (cases rule: pn_cases[of pn s])
    case fuel
    with Suc.prems show ?thesis by simp
  next
    case (crash s1)
    with pn[OF crash] Suc.prems show ?thesis by auto
  next
    case (null s1)
    have r1: "R s s1" using pn[OF null] by simp
    have "R s (PyErr_SetString (ValueError ''Expected mapping end event'') s1)"
      using r1 stable_seterr[OF st] by (rule tr)
    with null Suc.prems r1 show ?thesis by (auto split: if_splits)
  next
    case (obj key s1)
    have r1: "R s s1" using pn[OF obj] by simp
    show ?thesis
    proof (cases rule: pn_cases[of pn s1])
      case fuel
      with obj Suc.prems show ?thesis by simp
    next
      case (crash s2)
      have "R s s2" using r1 pn[OF crash] by (auto intro: tr)
      with obj crash Suc.prems show ?thesis by auto
    next
      case (null s2)
      have "R s s2" using r1 pn[OF null] by (auto intro: tr)
      with obj null Suc.prems show ?thesis by auto
    next
      case inner: (obj val s2)
      have r2: "R s s2" using r1 pn[OF inner] by (auto intro: tr)
      obtain ok s3 where si: "PyObject_SetItem result key val s2 = (ok, s3)"
        by (cases "PyObject_SetItem result key val s2")
      have r3: "R s s3" using r2 stable_setitem[OF st si] by (rule tr)
      show ?thesis
      proof (cases ok)
        case True
        with obj inner si Suc.prems have "map_loop pn k result s3 = Some out" by simp
        then have "R s3 (state_of out)" by (rule Suc.IH)
        with r3 show ?thesis by (rule tr)
      next
        case False
        with obj inner si Suc.prems r3 show ?thesis by auto
      qed
    qed
  qed
qed

lemma omap_loop_stable:
  assumes st: "stable h R" and pn: "\<And>s out. pn s = Some out \<Longrightarrow> R s (state_of out)"
  shows "omap_loop pn k result s = Some out \<Longrightarrow> R s (state_of out)"
proof (induction k arbitrary: s)
  case 0
  then show ?case by simp
next
  case (Suc k)
  note tr = stable_trans[OF st]
  obtain ok s1 where p1: "yaml_parser_parse s = (ok, s1)" by (cases "yaml_parser_parse s")
  have r1: "R s s1" by (rule stable_pull[OF st p1])
  have e1: "R s (PyErr_SetString e s1)" for e
    using r1 stable_seterr[OF st] by (rule tr)
  show ?case
  proof (cases "ok \<and> event s1 \<noteq> YAML_SEQUENCE_END_EVENT
                 \<and> \<not> (case event s1 of YAML_MAPPING_START_EVENT a t \<Rightarrow> False | _ \<Rightarrow> True)")
    case False
    with Suc.prems p1 r1 e1 show ?thesis by (auto split: if_splits)
  next
    case go: True
    show ?thesis
    proof (cases rule: pn_cases[of pn s1])
      case fuel
      with go p1 Suc.prems show ?thesis by simp
    next
      case (crash s2)
      have "R s s2" using r1 pn[OF crash] by (auto intro: tr)
      with go p1 crash Suc.prems show ?thesis by auto
    next
      case (null s2)
      have "R s s2" using r1 pn[OF null] by (auto intro: tr)
      with go p1 null Suc.prems show ?thesis by auto
    next
      case (obj key s2)
      have r2: "R s s2" using r1 pn[OF obj] by (auto intro: tr)
      show ?thesis
      proof (cases rule: pn_cases[of pn s2])
        case fuel
        with go p1 obj Suc.prems show ?thesis by simp
      next
        case (crash s3)
        have "R s s3" using r2 pn[OF crash] by (auto intro: tr)
        with go p1 obj crash Suc.prems show ?thesis by auto
      next
        case (null s3)
        have "R s s3" using r2 pn[OF null] by (auto intro: tr)
        with go p1 obj null Suc.prems show ?thesis by auto
      next
        case inner: (obj val s3)
        have r3: "R s s3" using r2 pn[OF inner] by (auto intro: tr)
        obtain ok1 s4 where si: "PyObject_SetItem (Some result) key val s3 = (ok1, s4)"
          by (cases "PyObject_SetItem (Some result) key val s3")
        have r4: "R s s4" using r3 stable_setitem[OF st si] by (rule tr)
        obtain ok2 s5 where p2: "yaml_parser_parse s4 = (ok2, s5)"
          by (cases "yaml_parser_parse s4")
        have r5: "R s s5" using r4 stable_pull[OF st p2] by (rule tr)
        have e5: "R s (PyErr_SetString e s5)" for e
          using r5 stable_seterr[OF st] by (rule tr)
        show ?thesis
        proof (cases "ok1 \<and> ok2 \<and> event s5 = YAML_MAPPING_END_EVENT")
          case True
          with go p1 obj inner si p2 Suc.prems have "omap_loop pn k result s5 = Some out"
            by simp
          then have "R s5 (state_of out)" by (rule Suc.IH)
          with r5 show ?thesis by (rule tr)
        next
          case False
          with go p1 obj inner si p2 Suc.prems r4 e5 show ?thesis
            by (auto split: if_splits)
        qed
      qed
    qed
  qed
qed

lemma parse_ordered_dict_stable:
  assumes st: "stable h R" and pn: "\<And>s out. pn s = Some out \<Longrightarrow> R s (state_of out)"
    and run: "parse_ordered_dict pn k s = Some out"
  shows "R s (state_of out)"
proof -
  obtain a s2 where al: "alloc (OrderedDict []) s = (a, s2)"
    by (cases "alloc (OrderedDict []) s")
  have tg: "tag_object h None (Some a) s2 = (Some a, s2)" by (simp add: tag_object_def)
  have r2: "R s (memo_anchor (ev_anchor (event s)) (Some a) s2)"
    by (rule stable_open[OF st al tg])
  have lp: "omap_loop pn k a (memo_anchor (ev_anchor (event s)) (Some a) s2) = Some out"
    using run al by (simp add: parse_ordered_dict_def)
  have "R (memo_anchor (ev_anchor (event s)) (Some a) s2) (state_of out)"
    using st pn lp by (rule omap_loop_stable)
  with r2 show ?thesis by (rule stable_trans[OF st])
qed

lemma parse_sequence_stable:
  assumes st: "stable h R" and pn: "\<And>s out. pn s = Some out \<Longrightarrow> R s (state_of out)"
    and run: "parse_sequence pn h k s = Some out"
  shows "R s (state_of out)"
proof (cases "is_omap (ev_tag (event s))")
  case True
  with run have "parse_ordered_dict pn k s = Some out" by (simp add: parse_sequence_def)
  with st pn show ?thesis by (rule parse_ordered_dict_stable)
next
  case False
  obtain a s2 where al: "alloc (PyList []) s = (a, s2)" by (cases "alloc (PyList []) s")
  obtain r s3 where tg: "tag_object h (ev_tag (event s)) (Some a) s2 = (r, s3)"
    by (cases "tag_object h (ev_tag (event s)) (Some a) s2")
  have r2: "R s (memo_anchor (ev_anchor (event s)) r s3)"
    by (rule stable_open[OF st al tg])
  have lp: "seq_loop pn k r (memo_anchor (ev_anchor (event s)) r s3) = Some out"
    using run False al tg by (simp add: parse_sequence_def)
  have "R (memo_anchor (ev_anchor (event s)) r s3) (state_of out)"
    using st pn lp by (rule seq_loop_stable)
  with r2 show ?thesis by (rule stable_trans[OF st])
qed

lemma parse_mapping_stable:
  assumes st: "stable h R" and pn: "\<And>s out. pn s = Some out \<Longrightarrow> R s (state_of out)"
    and run: "parse_mapping pn h k s = Some out"
  shows "R s (state_of out)"
proof -
  obtain a s2 where al: "alloc (PyDict []) s = (a, s2)" by (cases "alloc (PyDict []) s")
  obtain r s3 where tg: "tag_object h (ev_tag (event s)) (Some a) s2 = (r, s3)"
    by (cases "tag_object h (ev_tag (event s)) (Some a) s2")
  have r2: "R s (memo_anchor (ev_anchor (event s)) r s3)"
    by (rule stable_open[OF st al tg])
  have lp: "map_loop pn k r (memo_anchor (ev_anchor (event s)) r s3) = Some out"
    using run al tg by (simp add: parse_mapping_def)
  have "R (memo_anchor (ev_anchor (event s)) r s3) (state_of out)"
    using st pn lp by (rule map_loop_stable)
  with r2 show ?thesis by (rule stable_trans[OF st])
qed

text \<open>What \<open>parse_node\<close> does after it has pulled its event.\<close>

lemma parse_node_Suc:
  assumes "yaml_parser_parse s = (ok, s1)"
  shows "parse_node h (Suc n) s =
     (if \<not> ok then Some (Ret None (PyErr_SetString (ValueError ''Parsing error 3'') s1))
      else
        (case event s1 of
           YAML_ALIAS_EVENT a \<Rightarrow> Some (make_alias a s1)
         | YAML_SCALAR_EVENT a t v st \<Rightarrow> Some (make_scalar h s1)
         | YAML_SEQUENCE_START_EVENT a t \<Rightarrow> parse_sequence (parse_node h n) h n s1
         | YAML_MAPPING_START_EVENT a t \<Rightarrow> parse_mapping (parse_node h n) h n s1
         | _ \<Rightarrow> Some (Ret None s1)))"
  using assms by simp

lemma parse_node_after_pull_stable:
  assumes st: "stable h R"
    and pn: "\<And>s out. parse_node h n s = Some out \<Longrightarrow> R s (state_of out)"
    and p1: "yaml_parser_parse s = (ok, s1)"
    and run: "parse_node h (Suc n) s = Some out"
  shows "R s1 (state_of out)"
proof -
  have seq: "R s1 (state_of out)" if "parse_sequence (parse_node h n) h n s1 = Some out"
    using st pn that by (rule parse_sequence_stable)
  have mp: "R s1 (state_of out)" if "parse_mapping (parse_node h n) h n s1 = Some out"
    using st pn that by (rule parse_mapping_stable)
  show ?thesis
    using run seq mp stable_refl[OF st] stable_seterr[OF st]
      stable_alias[OF st] stable_scalar[OF st]
    unfolding parse_node_Suc[OF p1]
    by (auto split: if_splits yaml_event.splits)
qed

lemma parse_node_stable:
  assumes st: "stable h R"
  shows "parse_node h n s = Some out \<Longrightarrow> R s (state_of out)"
proof (induction n arbitrary: s out)
  case 0
  then show ?case by simp
next
  case (Suc n)
  obtain ok s1 where p1: "yaml_parser_parse s = (ok, s1)" by (cases "yaml_parser_parse s")
  have r1: "R s s1" by (rule stable_pull[OF st p1])
  have "R s1 (state_of out)"
    using st Suc.IH p1 Suc.prems by (rule parse_node_after_pull_stable)
  with r1 show ?case by (rule stable_trans[OF st])
qed

subsection \<open>Three stable relations\<close>

lemmas prim_defs =
  yaml_parser_parse_def PyErr_SetString_def alloc_def memo_anchor_def call_hook_def
  tag_object_def make_alias_def make_scalar_def null_error_def
  PyObject_CallMethod_append_def PyObject_SetItem_def

lemma stable_shrinks: "stable h shrinks"
  unfolding stable_def shrinks_def
  by (auto simp: prim_defs Let_def
      split: list.splits parser_item.splits option.splits yaml_event.splits prod.splits
        hook_result.splits pyobj.splits)




lemma extends_trans: "extends a b \<Longrightarrow> extends b c \<Longrightarrow> extends a c"
  unfolding extends_def
  apply (elim conjE exE)
  apply (intro conjI)
   apply simp
  subgoal for ext exta
    apply (rule exI[of _ "ext @ exta"])
    apply (auto)
    apply (meson le_trans)
    done
  done

lemma stable_extends: "stable h extends"
  unfolding stable_def
  apply (intro conjI allI impI)
          apply (simp add: extends_def)
         apply (erule (1) extends_trans)
        apply (auto simp: extends_def prim_defs Let_def
      split: list.splits parser_item.splits option.splits yaml_event.splits prod.splits
        hook_result.splits pyobj.splits)
  done


subsection \<open>Enough fuel\<close>

lemma pull_shrinks:
  assumes "yaml_parser_parse s = (ok, s1)"
  shows "length (events s1) \<le> length (events s)"
    and "event s1 \<noteq> YAML_NO_EVENT \<Longrightarrow> length (events s1) < length (events s)"
  using assms by (auto simp: yaml_parser_parse_def split: list.splits parser_item.splits)

lemma append_events: "PyObject_CallMethod_append r x s = (ok, s1) \<Longrightarrow> events s1 = events s"
  by (auto simp: prim_defs split: option.splits pyobj.splits)

lemma setitem_events: "PyObject_SetItem r k v s = (ok, s1) \<Longrightarrow> events s1 = events s"
  by (auto simp: prim_defs split: option.splits pyobj.splits if_splits)

lemma open_events:
  assumes "alloc obj s = (a, s1)" "tag_object h t (Some a) s1 = (r, s2)"
  shows "events (memo_anchor n r s2) = events s"
  using assms by (auto simp: prim_defs split: option.splits hook_result.splits if_splits)

lemma parse_node_shrinks:
  "parse_node h n s = Some out \<Longrightarrow> length (events (state_of out)) \<le> length (events s)"
  using parse_node_stable[OF stable_shrinks] by (simp add: shrinks_def)

text \<open>A node that is built has used up at least one event.\<close>

lemma parse_node_consumes:
  assumes "parse_node h n s = Some (Ret (Some a) s')"
  shows "length (events s') < length (events s)"
proof (cases n)
  case 0
  with assms show ?thesis by simp
next
  case (Suc m)
  obtain ok s1 where p1: "yaml_parser_parse s = (ok, s1)" by (cases "yaml_parser_parse s")
  have run: "parse_node h (Suc m) s = Some (Ret (Some a) s')" using assms Suc by simp
  have "shrinks s1 (state_of (Ret (Some a) s'))"
    using stable_shrinks parse_node_stable[OF stable_shrinks] p1 run
    by (rule parse_node_after_pull_stable)
  then have le: "length (events s') \<le> length (events s1)" by (simp add: shrinks_def)
  have "event s1 \<noteq> YAML_NO_EVENT"
    using run unfolding parse_node_Suc[OF p1] by (auto split: if_splits)
  then have "length (events s1) < length (events s)" by (rule pull_shrinks(2)[OF p1])
  with le show ?thesis by simp
qed

lemma seq_loop_returns:
  assumes pn: "\<And>s'. length (events s') < n \<Longrightarrow> pn s' \<noteq> None"
    and strict: "\<And>s' a s''. pn s' = Some (Ret (Some a) s'') \<Longrightarrow>
                   length (events s'') < length (events s')"
  shows "length (events s) < k \<Longrightarrow> length (events s) < n \<Longrightarrow> seq_loop pn k result s \<noteq> None"
proof (induction k arbitrary: s)
  case 0
  then show ?case by simp
next
  case (Suc k)
  show ?case
  proof (cases rule: pn_cases[of pn s])
    case fuel
    with pn[OF Suc.prems(2)] show ?thesis by simp
  next
    case (crash s1)
    then show ?thesis by simp
  next
    case (null s1)
    then show ?thesis by simp
  next
    case (obj sub s1)
    have lt: "length (events s1) < length (events s)" by (rule strict[OF obj])
    obtain ok s2 where ap: "PyObject_CallMethod_append result sub s1 = (ok, s2)"
      by (cases "PyObject_CallMethod_append result sub s1")
    have ev: "events s2 = events s1" by (rule append_events[OF ap])
    have "seq_loop pn k result s2 \<noteq> None"
      using lt ev Suc.prems by (intro Suc.IH) simp_all
    with obj ap show ?thesis by simp
  qed
qed

lemma map_loop_returns:
  assumes pn: "\<And>s'. length (events s') < n \<Longrightarrow> pn s' \<noteq> None"
    and strict: "\<And>s' a s''. pn s' = Some (Ret (Some a) s'') \<Longrightarrow>
                   length (events s'') < length (events s')"
  shows "length (events s) < k \<Longrightarrow> length (events s) < n \<Longrightarrow> map_loop pn k result s \<noteq> None"
proof (induction k arbitrary: s)
  case 0
  then show ?case by simp
next
  case (Suc k)
  show ?case
  proof (cases rule: pn_cases[of pn s])
    case fuel
    with pn[OF Suc.prems(2)] show ?thesis by simp
  next
    case (crash s1)
    then show ?thesis by simp
  next
    case (null s1)
    then show ?thesis by simp
  next
    case (obj key s1)
    have lt1: "length (events s1) < length (events s)" by (rule strict[OF obj])
    then have n1: "length (events s1) < n" using Suc.prems by simp
    show ?thesis
    proof (cases rule: pn_cases[of pn s1])
      case fuel
      with pn[OF n1] show ?thesis by simp
    next
      case (crash s2)
      with obj show ?thesis by simp
    next
      case (null s2)
      with obj show ?thesis by simp
    next
      case inner: (obj val s2)
      have lt2: "length (events s2) < length (events s1)" by (rule strict[OF inner])
      obtain ok s3 where si: "PyObject_SetItem result key val s2 = (ok, s3)"
        by (cases "PyObject_SetItem result key val s2")
      have ev: "events s3 = events s2" by (rule setitem_events[OF si])
      have "map_loop pn k result s3 \<noteq> None"
        using lt1 lt2 ev Suc.prems by (intro Suc.IH) simp_all
      with obj inner si show ?thesis by simp
    qed
  qed
qed

lemma omap_loop_returns:
  assumes pn: "\<And>s'. length (events s') < n \<Longrightarrow> pn s' \<noteq> None"
    and strict: "\<And>s' a s''. pn s' = Some (Ret (Some a) s'') \<Longrightarrow>
                   length (events s'') < length (events s')"
  shows "length (events s) < k \<Longrightarrow> length (events s) < n \<Longrightarrow> omap_loop pn k result s \<noteq> None"
proof (induction k arbitrary: s)
  case 0
  then show ?case by simp
next
  case (Suc k)
  obtain ok s1 where p1: "yaml_parser_parse s = (ok, s1)" by (cases "yaml_parser_parse s")
  show ?case
  proof (cases "ok \<and> event s1 \<noteq> YAML_SEQUENCE_END_EVENT
                 \<and> \<not> (case event s1 of YAML_MAPPING_START_EVENT a t \<Rightarrow> False | _ \<Rightarrow> True)")
    case False
    with p1 show ?thesis by (auto split: if_splits)
  next
    case go: True
    then have "event s1 \<noteq> YAML_NO_EVENT" by auto
    then have lt1: "length (events s1) < length (events s)" by (rule pull_shrinks(2)[OF p1])
    then have n1: "length (events s1) < n" using Suc.prems by simp
    show ?thesis
    proof (cases rule: pn_cases[of pn s1])
      case fuel
      with pn[OF n1] show ?thesis by simp
    next
      case (crash s2)
      with go p1 show ?thesis by simp
    next
      case (null s2)
      with go p1 show ?thesis by simp
    next
      case (obj key s2)
      have lt2: "length (events s2) < length (events s1)" by (rule strict[OF obj])
      then have n2: "length (events s2) < n" using n1 by simp
      show ?thesis
      proof (cases rule: pn_cases[of pn s2])
        case fuel
        with pn[OF n2] show ?thesis by simp
      next
        case (crash s3)
        with go p1 obj show ?thesis by simp
      next
        case (null s3)
        with go p1 obj show ?thesis by simp
      next
        case inner: (obj val s3)
        have lt3: "length (events s3) < length (events s2)" by (rule strict[OF inner])
        obtain ok1 s4 where si: "PyObject_SetItem (Some result) key val s3 = (ok1, s4)"
          by (cases "PyObject_SetItem (Some result) key val s3")
        have ev: "events s4 = events s3" by (rule setitem_events[OF si])
        obtain ok2 s5 where p2: "yaml_parser_parse s4 = (ok2, s5)"
          by (cases "yaml_parser_parse s4")
        have le5: "length (events s5) \<le> length (events s4)" by (rule pull_shrinks(1)[OF p2])
        have "omap_loop pn k result s5 \<noteq> None"
          using lt1 lt2 lt3 ev le5 Suc.prems by (intro Suc.IH) simp_all
        with go p1 obj inner si p2 show ?thesis by (simp split: if_splits)
      qed
    qed
  qed
qed

lemma parse_node_returns: "length (events s) < n \<Longrightarrow> parse_node h n s \<noteq> None"
proof (induction n arbitrary: s)
  case 0
  then show ?case by simp
next
  case (Suc n)
  obtain ok s1 where p1: "yaml_parser_parse s = (ok, s1)" by (cases "yaml_parser_parse s")
  have pn: "\<And>s'. length (events s') < n \<Longrightarrow> parse_node h n s' \<noteq> None" by (rule Suc.IH)
  have strict: "\<And>s' a s''. parse_node h n s' = Some (Ret (Some a) s'') \<Longrightarrow>
                   length (events s'') < length (events s')"
    by (rule parse_node_consumes)
  have n1: "length (events s1) < n" if "event s1 \<noteq> YAML_NO_EVENT"
    using pull_shrinks(2)[OF p1 that] Suc.prems by simp
  have seq: "parse_sequence (parse_node h n) h n s1 \<noteq> None" if ev: "event s1 \<noteq> YAML_NO_EVENT"
  proof (cases "is_omap (ev_tag (event s1))")
    case True
    obtain a s2 where al: "alloc (OrderedDict []) s1 = (a, s2)"
      by (cases "alloc (OrderedDict []) s1")
    have tg: "tag_object h None (Some a) s2 = (Some a, s2)" by (simp add: tag_object_def)
    have "events (memo_anchor (ev_anchor (event s1)) (Some a) s2) = events s1"
      by (rule open_events[OF al tg])
    then have "omap_loop (parse_node h n) n a (memo_anchor (ev_anchor (event s1)) (Some a) s2)
                 \<noteq> None"
      using n1[OF ev] by (intro omap_loop_returns[OF pn strict]) simp_all
    with True al show ?thesis by (simp add: parse_sequence_def parse_ordered_dict_def)
  next
    case False
    obtain a s2 where al: "alloc (PyList []) s1 = (a, s2)" by (cases "alloc (PyList []) s1")
    obtain r s3 where tg: "tag_object h (ev_tag (event s1)) (Some a) s2 = (r, s3)"
      by (cases "tag_object h (ev_tag (event s1)) (Some a) s2")
    have "events (memo_anchor (ev_anchor (event s1)) r s3) = events s1"
      by (rule open_events[OF al tg])
    then have "seq_loop (parse_node h n) n r (memo_anchor (ev_anchor (event s1)) r s3) \<noteq> None"
      using n1[OF ev] by (intro seq_loop_returns[OF pn strict]) simp_all
    with False al tg show ?thesis by (simp add: parse_sequence_def)
  qed
  have mp: "parse_mapping (parse_node h n) h n s1 \<noteq> None" if ev: "event s1 \<noteq> YAML_NO_EVENT"
  proof -
    obtain a s2 where al: "alloc (PyDict []) s1 = (a, s2)" by (cases "alloc (PyDict []) s1")
    obtain r s3 where tg: "tag_object h (ev_tag (event s1)) (Some a) s2 = (r, s3)"
      by (cases "tag_object h (ev_tag (event s1)) (Some a) s2")
    have "events (memo_anchor (ev_anchor (event s1)) r s3) = events s1"
      by (rule open_events[OF al tg])
    then have "map_loop (parse_node h n) n r (memo_anchor (ev_anchor (event s1)) r s3) \<noteq> None"
      using n1[OF ev] by (intro map_loop_returns[OF pn strict]) simp_all
    with al tg show ?thesis by (simp add: parse_mapping_def)
  qed
  show ?case
    unfolding parse_node_Suc[OF p1] using seq mp
    by (auto split: yaml_event.splits)
qed

subsection \<open>A failed lookup stops the run\<close>


lemma seterr_fields [simp]:
  "trace (PyErr_SetString e s) = trace s" "event (PyErr_SetString e s) = event s"
  "events (PyErr_SetString e s) = events s" "heap (PyErr_SetString e s) = heap s"
  "anchors (PyErr_SetString e s) = anchors s" "err (PyErr_SetString e s) = Some e"
  by (simp_all add: PyErr_SetString_def)





lemma stopped_decref [simp]:
  "stopped_at_alias (decref_return_null p s) = (p = None \<or> is_alias (event s))"
  by (cases p) (simp_all add: decref_return_null_def)





subsection \<open>Document, stream and entry point\<close>





subsection \<open>Single steps\<close>

lemma is_omap_tag [simp]: "is_omap (Some ''tag:yaml.org,2002:omap'')"
  by (simp add: is_omap_def strncmp_eq_def cstr_def NUL_def)

lemma pull_event:
  "events s = Event ev # rest \<Longrightarrow> yaml_parser_parse s = (True, s\<lparr>events := rest, event := ev\<rparr>)"
  by (simp add: yaml_parser_parse_def)

subsection \<open>Scalars as keys\<close>

lemma try_int_fst: "fst (try_int v k b e) = fst (try_int v k b e')"
  by (simp add: try_int_def split: option.splits prod.splits)





lemma treat_as_string_hashable: "fst (treat_as_string v e) = Some obj \<Longrightarrow> hashable obj"
  by (auto dest: treat_as_string_kind)

lemma generic_numeric_hashable: "fst (generic_numeric v ns e) = Some obj \<Longrightarrow> hashable obj"
  by (auto dest: generic_numeric_kind)

lemma keyable_simps [simp]:
  "keyable (treat_as_string v e)"
  "keyable (generic_numeric v ns e)"
  "keyable (case try_int v k b e of (Some z, e1) \<Rightarrow> (Some (PyInt z), e1)
          | (None, e1) \<Rightarrow> generic_numeric v' ns e1)"
  "keyable (Some PyNone, e)" "keyable (Some (PyBool x), e)" "keyable (Some (PyInt z), e)"
  "keyable (Some (PyFloat f), e)"
  by (auto simp: keyable_def split: option.splits prod.splits
      dest: treat_as_string_hashable generic_numeric_hashable)





subsection \<open>No crash unless the hook fails\<close>

lemma crashed_decref [simp]: "crashed (decref_return_null p s) = (p = None)"
  by (cases p) (simp_all add: decref_return_null_def)







section \<open>The claims about the builder and the driver\<close>

text \<open>
  Claim C1, as stated, fails: for a sequence with the omap tag the tag hook is not called.
  With a hook that wraps whatever it is given, the run on \<^verbatim>\<open>&a !!omap []\<close> allocates
  the ordered dictionary, registers it, and returns it unwrapped.
\<close>

theorem omap_hook_not_called:
  "map_option (\<lambda>r. (trace (result_state r), returned r, heap (result_state r)))
     (parse_yaml hook_wrap
       [Event YAML_STREAM_START_EVENT, Event YAML_DOCUMENT_START_EVENT,
        Event (YAML_SEQUENCE_START_EVENT (Some ''a'') (Some ''tag:yaml.org,2002:omap'')),
        Event YAML_SEQUENCE_END_EVENT,
        Event YAML_DOCUMENT_END_EVENT, Event YAML_STREAM_END_EVENT])
     = Some ([New 0 (OrderedDict []), Memo ''a'' 0], Some 0, [OrderedDict []])"
  by code_simp

text \<open>
  Claim C1, amended. When a sequence-start event carries the ordered-map tag, the builder
  makes an empty ordered dictionary and registers the anchor for it at once; the tag hook
  is not called in between, and no later call of the hook is for that dictionary.
\<close>

theorem omap_registers_untagged:
  assumes ev: "events s =
      Event (YAML_SEQUENCE_START_EVENT anchor (Some ''tag:yaml.org,2002:omap'')) # rest"
    and run: "parse_node h (Suc n) s = Some out"
  shows "\<exists>ext. trace (state_of out) =
           trace s @ New (length (heap s)) (OrderedDict []) #
             (case anchor of Some nm \<Rightarrow> if nm \<noteq> [] then [Memo nm (length (heap s))] else []
              | None \<Rightarrow> []) @ ext
         \<and> (\<forall>t x r. Tag t x r \<in> set ext \<longrightarrow> length (heap s) < x)"
proof -
  let ?ev = "YAML_SEQUENCE_START_EVENT anchor (Some ''tag:yaml.org,2002:omap'')"
  let ?s1 = "s\<lparr>events := rest, event := ?ev\<rparr>"
  let ?a = "length (heap s)"
  let ?s2 = "memo_anchor anchor (Some ?a) (snd (alloc (OrderedDict []) ?s1))"
  have p1: "yaml_parser_parse s = (True, ?s1)" by (rule pull_event[OF ev])
  have lp: "omap_loop (parse_node h n) n ?a ?s2 = Some out"
    using run unfolding parse_node_Suc[OF p1]
    by (simp add: parse_sequence_def parse_ordered_dict_def alloc_def)
  have pn: "\<And>s out. parse_node h n s = Some out \<Longrightarrow> extends s (state_of out)"
    by (rule parse_node_stable[OF stable_extends])
  have "extends ?s2 (state_of out)"
    using stable_extends pn lp by (rule omap_loop_stable)
  then obtain ext where e: "trace (state_of out) = trace ?s2 @ ext"
    and t: "\<forall>t x r. Tag t x r \<in> set ext \<longrightarrow> length (heap ?s2) \<le> x"
    unfolding extends_def by blast
  have h2: "length (heap ?s2) = Suc ?a"
    by (simp add: memo_anchor_def alloc_def split: option.splits)
  have t2: "trace ?s2 = trace s @ New ?a (OrderedDict []) #
             (case anchor of Some nm \<Rightarrow> if nm \<noteq> [] then [Memo nm ?a] else [] | None \<Rightarrow> [])"
    by (simp add: memo_anchor_def alloc_def split: option.splits)
  show ?thesis
    using e t h2 t2 by (intro exI[of _ ext]) (auto simp: less_eq_Suc_le)
qed

theorem omap_registers_untagged_witness:
  "\<exists>out ext. parse_node hook_wrap (Suc 2)
       (initial [Event (YAML_SEQUENCE_START_EVENT (Some ''a'') (Some ''tag:yaml.org,2002:omap'')),
                 Event YAML_SEQUENCE_END_EVENT]) = Some out
     \<and> trace (state_of out) = New 0 (OrderedDict []) # Memo ''a'' 0 # ext"
proof -
  let ?s = "initial [Event (YAML_SEQUENCE_START_EVENT (Some ''a'') (Some ''tag:yaml.org,2002:omap'')),
                 Event YAML_SEQUENCE_END_EVENT]"
  have ev: "events ?s =
      Event (YAML_SEQUENCE_START_EVENT (Some ''a'') (Some ''tag:yaml.org,2002:omap'')) #
        [Event YAML_SEQUENCE_END_EVENT]"
    by (simp add: initial_def)
  have "parse_node hook_wrap (Suc 2) ?s \<noteq> None"
    by (rule parse_node_returns) (simp add: initial_def)
  then obtain out where run: "parse_node hook_wrap (Suc 2) ?s = Some out" by blast
  from omap_registers_untagged [OF ev run] run show ?thesis
    by (auto simp: initial_def)
qed














end
